theory Spec2Isabelle
  imports Main "HOL-Library.Multiset"
begin

section \<open>Data model of the optimized weather data fetcher\<close>

text \<open>
  The development follows the optimized fetcher (the script that tracks a
  \<open>lastTimestamp\<close> per sensor in \<open>sensorMeta\<close>). Timestamps are integers, sensor
  values are left abstract (the type variable \<open>'v\<close>), sensor keys and serial
  numbers are strings.
\<close>

type_synonym sensorKey = string

text \<open>An entry of the \<open>SENSORS\<close> table: \<open>{ sn, name, unit }\<close>.\<close>

record sensorConfig =
  sn :: string
  name :: string
  cfgUnit :: string

text \<open>
  A record as \<open>fetchSensor\<close> builds it: \<open>{ timestamp, value, sensorKey, unit }\<close>.
  The field \<open>value\<close> is called \<open>val\<close> here.
\<close>

record 'v reading =
  timestamp :: int
  val :: 'v
  sensorKey :: sensorKey
  unit :: string

text \<open>
  \<open>error.message\<close> of what the \<open>catch\<close> block of \<open>fetchSensor\<close> receives: either the
  error thrown for a response that is not ok (\<open>HTTP <status>: <statusText>\<close>), or the
  message of anything else thrown inside the \<open>try\<close> block.
\<close>

datatype errorMessage = HttpFailure int string | Thrown string

text \<open>
  The object \<open>fetchSensor\<close> returns: \<open>{ sensorKey, data }\<close> on success and
  \<open>{ sensorKey, data: [], error }\<close> after the last failed attempt.
\<close>

record 'v fetchResult =
  resultKey :: sensorKey
  data :: "'v reading list"
  error :: "errorMessage option"

text \<open>
  What one attempt of \<open>fetchSensor\<close> meets. \<open>Rejected msg\<close>: the call of \<open>fetch\<close>
  throws. \<open>Http status statusText body\<close>: a response arrives; its body either
  throws when it is decoded (\<open>Malformed msg\<close>) or yields the list of
  \<open>[timestamp, value]\<close> pairs at \<open>sensors[0].data[0].records\<close> (the empty list when
  that path is missing).
\<close>

datatype 'v body = Malformed string | Records "(int \<times> 'v) list"

datatype 'v response = Rejected string | Http int string "'v body"

text \<open>The value stored at \<open>sensorMeta/<key>\<close>.\<close>

record 'v watermark =
  lastTimestamp :: int
  latestValue :: "'v option"
  lastUpdated :: int

text \<open>The value written to \<open>weatherData/metadata\<close>.\<close>

record 'v runSummary =
  timeRangeEnd :: int
  fetchedAt :: int
  cachedAt :: int
  sensorCount :: nat
  summaryValues :: "sensorKey \<rightharpoonup> 'v"

text \<open>
  The backing store, by path: \<open>sensorMeta/<key>\<close>, \<open>sensorData/<key>/data/<i>\<close>,
  \<open>sensorData/<key>/recordCount\<close>, \<open>sensorData/<key>/lastUpdated\<close>,
  \<open>weatherData/metadata\<close> and \<open>weatherHistory/<t>\<close> (an entry
  \<open>{ timestamp, values }\<close>). A path that holds nothing is \<open>None\<close>.
\<close>

record 'v store =
  sensorMeta :: "sensorKey \<rightharpoonup> 'v watermark"
  logData :: "sensorKey \<Rightarrow> nat \<rightharpoonup> 'v reading"
  recordCount :: "sensorKey \<rightharpoonup> nat"
  logLastUpdated :: "sensorKey \<rightharpoonup> int"
  metadata :: "'v runSummary option"
  history :: "int \<rightharpoonup> (int \<times> (sensorKey \<rightharpoonup> 'v))"

text \<open>
  Everything outside the program that a run depends on: the configuration, the
  upstream API (its answer to the request for a sensor serial number and a time
  window, at each attempt), whether each access to the store succeeds or throws,
  and what \<open>Date.now()\<close> returns at each place it is called.
\<close>

record 'v env =
  apiTokenSet :: bool
  serviceAccountSet :: bool
  upstream :: "string \<Rightarrow> int \<Rightarrow> int \<Rightarrow> nat \<Rightarrow> 'v response"
  metaReadOk :: bool
  countReadOk :: "sensorKey \<Rightarrow> bool"
  updateOk :: "sensorKey \<Rightarrow> bool"
  metadataSetOk :: bool
  historySetOk :: bool
  nowStart :: int
  nowWatermark :: "sensorKey \<Rightarrow> int"
  nowLog :: "sensorKey \<Rightarrow> int"
  nowFetchedAt :: int
  nowCachedAt :: int
  nowHistoryKey :: int
  nowHistoryStamp :: int

text \<open>
  The accumulators of \<open>main\<close> together with the store and the list of delays
  awaited so far (in milliseconds).
\<close>

record 'v state =
  store :: "'v store"
  latestValues :: "sensorKey \<rightharpoonup> 'v"
  newTimestamps :: "sensorKey \<rightharpoonup> 'v watermark"
  totalNewRecords :: nat
  successfulSensors :: nat
  waits :: "int list"

text \<open>
  The \<open>SENSORS\<close> table, in the order of its keys. The degree sign and the
  superscript two of the units are written \<open>deg\<close> and \<open>2\<close>.
\<close>

definition SENSORS :: "(sensorKey \<times> sensorConfig) list" where
  "SENSORS =
    [(''barometricPressure'', \<lparr>sn = ''21956394-1'', name = ''Barometric Pressure'', cfgUnit = ''mbar''\<rparr>),
     (''precipitation'', \<lparr>sn = ''21987752-1'', name = ''Precipitation'', cfgUnit = ''mm''\<rparr>),
     (''rainfall24hr'', \<lparr>sn = ''21987752-2'', name = ''Rainfall (24-Hr)'', cfgUnit = ''mm''\<rparr>),
     (''rainfallWeekly'', \<lparr>sn = ''21987752-3'', name = ''Rainfall (Weekly)'', cfgUnit = ''mm''\<rparr>),
     (''rainfallMonthly'', \<lparr>sn = ''21987752-4'', name = ''Rainfall (Monthly)'', cfgUnit = ''mm''\<rparr>),
     (''waterLevel'', \<lparr>sn = ''22054593-1'', name = ''Water Level'', cfgUnit = ''m''\<rparr>),
     (''diffPressure'', \<lparr>sn = ''22054593-2'', name = ''Diff Pressure'', cfgUnit = ''kPa''\<rparr>),
     (''waterTemperature'', \<lparr>sn = ''22054593-3'', name = ''Water Temperature'', cfgUnit = ''degC''\<rparr>),
     (''waterBaroPressure'', \<lparr>sn = ''22054593-4'', name = ''Baro Pressure (Water)'', cfgUnit = ''kPa''\<rparr>),
     (''solarRadiation'', \<lparr>sn = ''22430939-1'', name = ''Solar Radiation'', cfgUnit = ''W/m2''\<rparr>),
     (''temperature'', \<lparr>sn = ''22442709-1'', name = ''Air Temperature'', cfgUnit = ''degC''\<rparr>),
     (''humidity'', \<lparr>sn = ''22442709-2'', name = ''Relative Humidity'', cfgUnit = ''%''\<rparr>),
     (''dewPoint'', \<lparr>sn = ''22442709-3'', name = ''Dew Point'', cfgUnit = ''degC''\<rparr>),
     (''windSpeed'', \<lparr>sn = ''22447153-1'', name = ''Wind Speed'', cfgUnit = ''m/s''\<rparr>),
     (''gustSpeed'', \<lparr>sn = ''22447153-2'', name = ''Gust Speed'', cfgUnit = ''m/s''\<rparr>),
     (''windDirection'', \<lparr>sn = ''22447153-3'', name = ''Wind Direction'', cfgUnit = ''deg''\<rparr>),
     (''evapotranspiration'', \<lparr>sn = ''22462095-1'', name = ''Reference ET'', cfgUnit = ''mm''\<rparr>)]"


section \<open>fetchSensor\<close>

text \<open>
  The records of a decoded body, mapped to readings
  (\<open>records.map(([timestamp, value]) => ({ timestamp, value, sensorKey, unit }))\<close>).
\<close>

definition toReadings :: "sensorKey \<Rightarrow> sensorConfig \<Rightarrow> (int \<times> 'v) list \<Rightarrow> 'v reading list" where
  "toReadings key cfg records =
     map (\<lambda>(t, v). \<lparr>timestamp = t, val = v, sensorKey = key, unit = cfgUnit cfg\<rparr>) records"

text \<open>
  One attempt, up to the point where the \<open>try\<close> block either returns, continues
  after a rate limit, or throws.
\<close>

datatype 'v attempt = RateLimited | Failure errorMessage | Success "'v reading list"

definition tryAttempt :: "sensorKey \<Rightarrow> sensorConfig \<Rightarrow> 'v response \<Rightarrow> 'v attempt" where
  "tryAttempt key cfg r =
     (case r of
        Rejected msg \<Rightarrow> Failure (Thrown msg)
      | Http status statusText b \<Rightarrow>
          if status = 429 then RateLimited
          else if \<not> (200 \<le> status \<and> status \<le> 299) then Failure (HttpFailure status statusText)
          else (case b of
                  Malformed msg \<Rightarrow> Failure (Thrown msg)
                | Records records \<Rightarrow> Success (toReadings key cfg records)))"

text \<open>
  The retry loop \<open>for (let attempt = 0; attempt < retries; attempt++)\<close>, from the
  attempt given. The result is what the function returns (\<open>None\<close> is \<open>undefined\<close>:
  the loop ends and the function has no \<open>return\<close> after it) and the delays it
  awaited, in order.
\<close>

function fetchLoop ::
  "(nat \<Rightarrow> 'v response) \<Rightarrow> sensorKey \<Rightarrow> sensorConfig \<Rightarrow> nat \<Rightarrow> nat \<Rightarrow> 'v fetchResult option \<times> int list"
where
  "fetchLoop respond key cfg retries attempt =
     (if attempt < retries then
        (case tryAttempt key cfg (respond attempt) of
           RateLimited \<Rightarrow>
             (let waitTime = 2 ^ attempt * 2000;
                  (r, ds) = fetchLoop respond key cfg retries (Suc attempt)
              in (r, waitTime # ds))
         | Success rs \<Rightarrow> (Some \<lparr>resultKey = key, data = rs, error = None\<rparr>, [])
         | Failure msg \<Rightarrow>
             if attempt = retries - 1
             then (Some \<lparr>resultKey = key, data = [], error = Some msg\<rparr>, [])
             else (let (r, ds) = fetchLoop respond key cfg retries (Suc attempt)
                   in (r, 1000 # ds)))
      else (None, []))"
  by pat_completeness auto
termination
  by (relation "measure (\<lambda>(respond, key, cfg, retries, attempt). retries - attempt)") auto

declare fetchLoop.simps [simp del]

definition fetchSensor ::
  "'v env \<Rightarrow> sensorKey \<Rightarrow> sensorConfig \<Rightarrow> int \<Rightarrow> int \<Rightarrow> nat \<Rightarrow> 'v fetchResult option \<times> int list"
where
  "fetchSensor e key cfg startTime endTime retries =
     fetchLoop (upstream e (sn cfg) startTime endTime) key cfg retries 0"


section \<open>main\<close>

text \<open>
  \<open>lastTimestamps[sensorKey]?.lastTimestamp || 0\<close>: the stored number, and \<open>0\<close>
  when the sensor has no entry (for a number \<open>n\<close>, \<open>n || 0\<close> is \<open>n\<close>).
\<close>

definition lastTsOf :: "(sensorKey \<rightharpoonup> 'v watermark) \<Rightarrow> sensorKey \<Rightarrow> int" where
  "lastTsOf lastTimestamps key =
     (case lastTimestamps key of None \<Rightarrow> 0 | Some w \<Rightarrow> lastTimestamp w)"

text \<open>
  \<open>lastTimestamps[sensorKey]?.latestValue\<close>, with \<open>None\<close> for \<open>undefined\<close>.
\<close>

definition priorLatestValue :: "(sensorKey \<rightharpoonup> 'v watermark) \<Rightarrow> sensorKey \<Rightarrow> 'v option" where
  "priorLatestValue lastTimestamps key =
     (case lastTimestamps key of None \<Rightarrow> None | Some w \<Rightarrow> latestValue w)"

text \<open>
  The filter and sort of the loop body, as a function of the fetched records
  \<open>newRecords\<close>, of \<open>lastTs\<close> and of the value of \<open>Date.now()\<close> that goes into the
  new watermark. Three ways out:
  \<^item> \<open>NoRecords\<close>: \<open>newRecords.length === 0\<close>;
  \<^item> \<open>NothingNew v\<close>: \<open>trulyNewRecords.length === 0\<close>, and \<open>v\<close> is
    \<open>newRecords[newRecords.length - 1].value\<close>;
  \<^item> \<open>Increment sorted w\<close>: the sorted \<open>trulyNewRecords\<close> and the entry \<open>w\<close> put
    into \<open>newTimestamps[sensorKey]\<close>.

  \<open>Array.prototype.sort\<close> is stable, and so is \<open>sort_key\<close>; on integer timestamps
  the comparator \<open>a.timestamp - b.timestamp\<close> orders by \<open>\<le>\<close>.
\<close>

datatype 'v merged = NoRecords | NothingNew 'v | Increment "'v reading list" "'v watermark"

definition mergeStep :: "'v reading list \<Rightarrow> int \<Rightarrow> int \<Rightarrow> 'v merged" where
  "mergeStep newRecords lastTs now =
     (if newRecords = [] then NoRecords
      else
        let trulyNewRecords = filter (\<lambda>r. timestamp r > lastTs) newRecords
        in if trulyNewRecords = [] then NothingNew (val (last newRecords))
           else
             let sorted = sort_key timestamp trulyNewRecords;
                 newestRecord = last sorted
             in Increment sorted
                  \<lparr>lastTimestamp = timestamp newestRecord,
                   latestValue = Some (val newestRecord),
                   lastUpdated = now\<rparr>)"

text \<open>The records a merge outcome hands to the append: none unless it is an increment.\<close>

fun incrementOf :: "'v merged \<Rightarrow> 'v reading list" where
  "incrementOf NoRecords = []"
| "incrementOf (NothingNew v) = []"
| "incrementOf (Increment recs w) = recs"

text \<open>The watermark entry a merge outcome asks to be written, if any.\<close>

fun newWatermarkOf :: "'v merged \<Rightarrow> 'v watermark option" where
  "newWatermarkOf NoRecords = None"
| "newWatermarkOf (NothingNew v) = None"
| "newWatermarkOf (Increment recs w) = Some w"

text \<open>
  The \<open>updates\<close> object of the multi-location update, one constructor per kind of
  path: \<open>sensorData/<key>/data/<i>\<close>, \<open>sensorData/<key>/recordCount\<close>,
  \<open>sensorData/<key>/lastUpdated\<close> and \<open>sensorMeta/<key>\<close>.
\<close>

datatype 'v update =
    PutRecord sensorKey nat "'v reading"
  | PutCount sensorKey nat
  | PutLogUpdated sensorKey int
  | PutMeta sensorKey "'v watermark"

definition buildUpdates ::
  "sensorKey \<Rightarrow> nat \<Rightarrow> 'v reading list \<Rightarrow> int \<Rightarrow> 'v watermark \<Rightarrow> 'v update list"
where
  "buildUpdates key currentCount recs now w =
     map (\<lambda>(idx, r). PutRecord key (currentCount + idx) r) (enumerate 0 recs)
     @ [PutCount key (currentCount + length recs), PutLogUpdated key now, PutMeta key w]"

fun applyUpdate :: "'v update \<Rightarrow> 'v store \<Rightarrow> 'v store" where
  "applyUpdate (PutRecord key i r) s = s\<lparr>logData := (logData s)(key := (logData s key)(i \<mapsto> r))\<rparr>"
| "applyUpdate (PutCount key c) s = s\<lparr>recordCount := (recordCount s)(key \<mapsto> c)\<rparr>"
| "applyUpdate (PutLogUpdated key t) s = s\<lparr>logLastUpdated := (logLastUpdated s)(key \<mapsto> t)\<rparr>"
| "applyUpdate (PutMeta key w) s = s\<lparr>sensorMeta := (sensorMeta s)(key \<mapsto> w)\<rparr>"

text \<open>\<open>database.ref().update(updates)\<close> when it succeeds: every path is written.\<close>

definition updateStore :: "'v update list \<Rightarrow> 'v store \<Rightarrow> 'v store" where
  "updateStore updates s = fold applyUpdate updates s"

text \<open>
  \<open>countSnapshot.exists() ? countSnapshot.val() : 0\<close>, the only read the append
  makes.
\<close>

definition currentCountOf :: "'v store \<Rightarrow> sensorKey \<Rightarrow> nat" where
  "currentCountOf s key = (case recordCount s key of None \<Rightarrow> 0 | Some c \<Rightarrow> c)"

definition appendUpdates ::
  "'v env \<Rightarrow> sensorKey \<Rightarrow> 'v reading list \<Rightarrow> 'v watermark \<Rightarrow> 'v store \<Rightarrow> 'v update list"
where
  "appendUpdates e key recs w s =
     (let currentCount = currentCountOf s key
      in buildUpdates key currentCount recs (nowLog e key) w)"

text \<open>
  The \<open>try\<close> block of the append. \<open>None\<close>: the read of the record count or the
  update threw and the \<open>catch\<close> block ran; a multi-location update that fails
  writes nothing.
\<close>

definition appendRecords ::
  "'v env \<Rightarrow> sensorKey \<Rightarrow> 'v reading list \<Rightarrow> 'v watermark \<Rightarrow> 'v store \<Rightarrow> 'v store option"
where
  "appendRecords e key recs w s =
     (if \<not> countReadOk e key then None
      else
        let updates = appendUpdates e key recs w s
        in if updateOk e key then Some (updateStore updates s) else None)"

text \<open>\<open>await delay(200)\<close> at the end of an iteration.\<close>

definition pace :: "'v state \<Rightarrow> 'v state" where
  "pace st = st\<lparr>waits := waits st @ [200]\<rparr>"

text \<open>
  One iteration of the loop over the sensors. \<open>Inl\<close>: the iteration throws (the
  \<open>TypeError\<close> of \<open>result.data\<close> on an \<open>undefined\<close> result), with the state reached;
  \<open>Inr\<close>: the loop goes on with the state given.
\<close>

definition processSensor ::
  "'v env \<Rightarrow> (sensorKey \<rightharpoonup> 'v watermark) \<Rightarrow> int \<Rightarrow> int \<Rightarrow> sensorKey \<times> sensorConfig
     \<Rightarrow> 'v state \<Rightarrow> 'v state + 'v state"
where
  "processSensor e lastTimestamps startTime endTime entry st0 =
     (let key = fst entry;
          cfg = snd entry;
          lastTs = lastTsOf lastTimestamps key;
          (result, ds) = fetchSensor e key cfg startTime endTime 3;
          st = st0\<lparr>waits := waits st0 @ ds\<rparr>
      in case result of
           None \<Rightarrow> Inl st
         | Some res \<Rightarrow>
             (case mergeStep (data res) lastTs (nowWatermark e key) of
                NoRecords \<Rightarrow>
                  (case priorLatestValue lastTimestamps key of
                     None \<Rightarrow> Inr (pace st)
                   | Some v \<Rightarrow>
                       Inr (pace (st\<lparr>latestValues := (latestValues st)(key \<mapsto> v),
                                     successfulSensors := successfulSensors st + 1\<rparr>)))
              | NothingNew v \<Rightarrow>
                  Inr (pace (st\<lparr>latestValues := (latestValues st)(key \<mapsto> v),
                                successfulSensors := successfulSensors st + 1\<rparr>))
              | Increment recs w \<Rightarrow>
                  (let st1 = st\<lparr>latestValues := (latestValues st)(key \<mapsto> val (last recs)),
                                newTimestamps := (newTimestamps st)(key \<mapsto> w)\<rparr>
                   in case appendRecords e key recs w (store st1) of
                        Some s' \<Rightarrow>
                          Inr (pace (st1\<lparr>store := s',
                                         totalNewRecords := totalNewRecords st1 + length recs,
                                         successfulSensors := successfulSensors st1 + 1\<rparr>))
                      | None \<Rightarrow> Inr (pace st1))))"

text \<open>The loop over the sensors; it stops where an iteration throws.\<close>

fun processSensors ::
  "'v env \<Rightarrow> (sensorKey \<rightharpoonup> 'v watermark) \<Rightarrow> int \<Rightarrow> int \<Rightarrow> (sensorKey \<times> sensorConfig) list
     \<Rightarrow> 'v state \<Rightarrow> 'v state + 'v state"
where
  "processSensors e lastTimestamps startTime endTime [] st = Inr st"
| "processSensors e lastTimestamps startTime endTime (entry # entries) st =
     (case processSensor e lastTimestamps startTime endTime entry st of
        Inl st' \<Rightarrow> Inl st'
      | Inr st' \<Rightarrow> processSensors e lastTimestamps startTime endTime entries st')"

text \<open>The accumulators as \<open>main\<close> declares them, before the loop.\<close>

definition initialState :: "'v store \<Rightarrow> 'v state" where
  "initialState s = \<lparr>store = s, latestValues = Map.empty, newTimestamps = Map.empty,
                      totalNewRecords = 0, successfulSensors = 0, waits = []\<rparr>"

text \<open>
  A run over a table of sensors: the exit code of the process and the store it
  leaves. Exit code 1: a configuration value is missing, the loop threw (the
  \<open>catch\<close> on \<open>main()\<close>), or the write of \<open>weatherData/metadata\<close> failed.
\<close>

definition run :: "(sensorKey \<times> sensorConfig) list \<Rightarrow> 'v env \<Rightarrow> 'v store \<Rightarrow> nat \<times> 'v store" where
  "run sensors e s =
     (if \<not> apiTokenSet e then (1, s)
      else if \<not> serviceAccountSet e then (1, s)
      else
        let endTime = nowStart e;
            startTime = endTime - 2 * 60 * 60 * 1000;
            lastTimestamps = (if metaReadOk e then sensorMeta s else Map.empty);
            st0 = initialState s
        in case processSensors e lastTimestamps startTime endTime sensors st0 of
             Inl st \<Rightarrow> (1, store st)
           | Inr st \<Rightarrow>
               if \<not> metadataSetOk e then (1, store st)
               else
                 let s1 = (store st)\<lparr>metadata :=
                            Some \<lparr>timeRangeEnd = endTime, fetchedAt = nowFetchedAt e,
                                  cachedAt = nowCachedAt e,
                                  sensorCount = successfulSensors st,
                                  summaryValues = latestValues st\<rparr>\<rparr>;
                     s2 = (if historySetOk e
                           then s1\<lparr>history := (history s1)(nowHistoryKey e \<mapsto>
                                     (nowHistoryStamp e, latestValues st))\<rparr>
                           else s1)
                 in (0, s2))"

definition main :: "'v env \<Rightarrow> 'v store \<Rightarrow> nat \<times> 'v store" where
  "main e s = run SENSORS e s"

text \<open>
  The log of a sensor as a list: the readings at positions \<open>0, \<dots>, recordCount - 1\<close>,
  and \<open>None\<close> when one of these positions holds nothing.
\<close>

definition storedLog :: "'v store \<Rightarrow> sensorKey \<Rightarrow> 'v reading list option" where
  "storedLog s key = those (map (logData s key) [0..<currentCountOf s key])"

text \<open>The \<open>lastTimestamp\<close> of a sensor in the store, \<open>0\<close> when it has no watermark.\<close>

definition watermarkTs :: "'v store \<Rightarrow> sensorKey \<Rightarrow> int" where
  "watermarkTs s key = lastTsOf (sensorMeta s) key"


text \<open>The state an iteration or the loop ends in, whether it threw or not.\<close>

definition stateAfter :: "'v state + 'v state \<Rightarrow> 'v state" where
  "stateAfter r = (case r of Inl st \<Rightarrow> st | Inr st \<Rightarrow> st)"


text \<open>
  For one sensor key, relative to the store \<open>s\<close> the run started from: either
  nothing of the sensor changed, or its record count grew and its watermark is
  the timestamp of the last reading of its log, above \<open>lastTs\<close>.
\<close>

definition untouched :: "'v store \<Rightarrow> 'v store \<Rightarrow> sensorKey \<Rightarrow> bool" where
  "untouched s s' key \<longleftrightarrow>
     sensorMeta s' key = sensorMeta s key \<and> recordCount s' key = recordCount s key
     \<and> logData s' key = logData s key"

definition appended :: "'v store \<Rightarrow> 'v store \<Rightarrow> int \<Rightarrow> sensorKey \<Rightarrow> bool" where
  "appended s s' lastTs key \<longleftrightarrow>
     currentCountOf s key < currentCountOf s' key
     \<and> (\<exists>w r. sensorMeta s' key = Some w \<and> lastTs < lastTimestamp w
            \<and> logData s' key (currentCountOf s' key - 1) = Some r
            \<and> timestamp r = lastTimestamp w)"


section \<open>Concrete runs\<close>

text \<open>
  Inputs for the concrete runs evaluated below, with natural numbers as sensor
  values. \<open>exampleEnv respond readsOk writesOk\<close>: the configuration is complete,
  the upstream answers the request for a serial number at an attempt with
  \<open>respond\<close>, the bulk read of \<open>sensorMeta\<close> succeeds iff \<open>readsOk\<close>, every
  multi-location update succeeds iff \<open>writesOk\<close>, and the run starts at time
  \<open>7200000\<close> (so the window is \<open>[0, 7200000]\<close>).
\<close>

definition exampleEnv :: "(string \<Rightarrow> nat \<Rightarrow> nat response) \<Rightarrow> bool \<Rightarrow> bool \<Rightarrow> nat env" where
  "exampleEnv respond readsOk writesOk =
     \<lparr>apiTokenSet = True, serviceAccountSet = True,
      upstream = (\<lambda>serial startTime endTime attempt. respond serial attempt),
      metaReadOk = readsOk, countReadOk = (\<lambda>key. True), updateOk = (\<lambda>key. writesOk),
      metadataSetOk = True, historySetOk = True,
      nowStart = 7200000, nowWatermark = (\<lambda>key. 7200010), nowLog = (\<lambda>key. 7200020),
      nowFetchedAt = 7200030, nowCachedAt = 7200040,
      nowHistoryKey = 7200050, nowHistoryStamp = 7200060\<rparr>"

text \<open>
  The upstream answers every request with \<open>200 OK\<close>; the barometric pressure
  sensor (serial number \<open>21956394-1\<close>) has the records given, every other sensor
  has none.
\<close>

definition onlyBarometer :: "(int \<times> nat) list \<Rightarrow> string \<Rightarrow> nat \<Rightarrow> nat response" where
  "onlyBarometer records serial attempt =
     Http 200 ''OK'' (Records (if serial = ''21956394-1'' then records else []))"

text \<open>The upstream answers every request with \<open>429 Too Many Requests\<close>.\<close>

definition alwaysRateLimited :: "string \<Rightarrow> nat \<Rightarrow> nat response" where
  "alwaysRateLimited serial attempt = Http 429 ''Too Many Requests'' (Records [])"

text \<open>
  A store after an earlier run: the log of the barometric pressure sensor holds
  one reading, of timestamp \<open>100\<close> and value \<open>5\<close>, and its watermark says so.
\<close>

definition exampleStore :: "nat store" where
  "exampleStore =
     \<lparr>sensorMeta = [''barometricPressure'' \<mapsto>
                      \<lparr>lastTimestamp = 100, latestValue = Some 5, lastUpdated = 3600010\<rparr>],
      logData = (\<lambda>key. Map.empty)
                  (''barometricPressure'' :=
                     [0 \<mapsto> \<lparr>timestamp = 100, val = 5, sensorKey = ''barometricPressure'',
                              unit = ''mbar''\<rparr>]),
      recordCount = [''barometricPressure'' \<mapsto> 1],
      logLastUpdated = [''barometricPressure'' \<mapsto> 3600020],
      metadata = None, history = Map.empty\<rparr>"


section \<open>Properties of fetchSensor\<close>

lemma tryAttempt_RateLimited_iff:
  "tryAttempt key cfg r = RateLimited \<longleftrightarrow> (\<exists>txt b. r = Http 429 txt b)"
  by (auto simp: tryAttempt_def split: response.splits body.splits)

text \<open>
  When every attempt from \<open>attempt\<close> on is rate limited, the loop waits
  \<open>2 ^ a * 2000\<close> milliseconds after each attempt \<open>a\<close> and ends without a result.
\<close>

lemma fetchLoop_rate_limited:
  "(\<And>a. attempt \<le> a \<Longrightarrow> a < retries \<Longrightarrow> tryAttempt key cfg (respond a) = RateLimited)
   \<Longrightarrow> fetchLoop respond key cfg retries attempt
       = (None, map (\<lambda>a. 2 ^ a * 2000) [attempt..<retries])"
proof (induction respond key cfg retries attempt rule: fetchLoop.induct)
  case (1 respond key cfg retries attempt)
  show ?case
  proof (cases "attempt < retries")
    case True
    have rl: "tryAttempt key cfg (respond attempt) = RateLimited"
      using "1.prems" True by simp
    have ih: "fetchLoop respond key cfg retries (Suc attempt)
                = (None, map (\<lambda>a. 2 ^ a * 2000) [Suc attempt..<retries])"
      using "1.IH"(1) [OF True rl refl] "1.prems" by simp
    show ?thesis
      using True rl ih by (subst fetchLoop.simps) (simp add: upt_conv_Cons)
  next
    case False
    then show ?thesis by (subst fetchLoop.simps) simp
  qed
qed

text \<open>
  When \<open>fetchSensor\<close> returns \<open>undefined\<close>: no attempt still to come succeeds, and
  the last attempt, if there is one to come, is rate limited. In every other case
  it returns a result object.
\<close>

lemma fetchLoop_undefined_iff:
  "fst (fetchLoop respond key cfg retries attempt) = None \<longleftrightarrow>
     (\<forall>a. attempt \<le> a \<and> a < retries \<longrightarrow> (\<forall>rs. tryAttempt key cfg (respond a) \<noteq> Success rs))
     \<and> (attempt < retries \<longrightarrow> tryAttempt key cfg (respond (retries - 1)) = RateLimited)"
proof (induction respond key cfg retries attempt rule: fetchLoop.induct)
  case (1 respond key cfg retries attempt)
  show ?case
  proof (cases "attempt < retries")
    case False
    then show ?thesis by (subst fetchLoop.simps) auto
  next
    case True
    note lt = True
    have range: "(\<forall>a. attempt \<le> a \<and> a < retries \<longrightarrow> P a)
                   \<longleftrightarrow> P attempt \<and> (\<forall>a. Suc attempt \<le> a \<and> a < retries \<longrightarrow> P a)" for P
      using lt by (metis Suc_leI le_neq_implies_less Suc_le_lessD less_imp_le_nat order_refl)
    show ?thesis
    proof (cases "tryAttempt key cfg (respond attempt)")
      case RateLimited
      have "fst (fetchLoop respond key cfg retries attempt)
              = fst (fetchLoop respond key cfg retries (Suc attempt))"
        using lt RateLimited by (subst fetchLoop.simps) (simp split: prod.splits)
      moreover have "Suc attempt < retries \<or> attempt = retries - 1"
        using lt by arith
      ultimately show ?thesis
        using "1.IH"(1) [OF lt RateLimited refl] RateLimited lt
        by (subst range) auto
    next
      case (Success rs)
      have "fst (fetchLoop respond key cfg retries attempt) \<noteq> None"
        using lt Success by (subst fetchLoop.simps) simp
      then show ?thesis
        using Success lt by (subst range) auto
    next
      case (Failure msg)
      show ?thesis
      proof (cases "attempt = retries - 1")
        case True
        have "fst (fetchLoop respond key cfg retries attempt) \<noteq> None"
          using lt Failure True by (subst fetchLoop.simps) simp
        then show ?thesis
          using Failure lt True by auto
      next
        case False
        have "fst (fetchLoop respond key cfg retries attempt)
              = fst (fetchLoop respond key cfg retries (Suc attempt))"
          using lt Failure False by (subst fetchLoop.simps) (simp split: prod.splits)
        moreover have "Suc attempt < retries"
          using lt False by arith
        ultimately show ?thesis
          using "1.IH"(2) [OF lt Failure False] Failure lt
          by (subst range) auto
      qed
    qed
  qed
qed


section \<open>Properties of the merge step\<close>

lemma sort_key_eq_Nil: "sort_key f xs = [] \<longleftrightarrow> xs = []"
  by (metis length_sort length_0_conv)

lemma incrementOf_mergeStep:
  "incrementOf (mergeStep newRecords lastTs now)
     = sort_key timestamp (filter (\<lambda>r. lastTs < timestamp r) newRecords)"
  by (simp add: mergeStep_def Let_def)

lemma newWatermarkOf_mergeStep:
  "newWatermarkOf (mergeStep newRecords lastTs now) =
     (if incrementOf (mergeStep newRecords lastTs now) = [] then None
      else Some \<lparr>lastTimestamp = timestamp (last (incrementOf (mergeStep newRecords lastTs now))),
                 latestValue = Some (val (last (incrementOf (mergeStep newRecords lastTs now)))),
                 lastUpdated = now\<rparr>)"
  by (auto simp: mergeStep_def Let_def filter_empty_conv sort_key_eq_Nil)

lemma mergeStep_Increment:
  "mergeStep newRecords lastTs now = Increment recs w \<longleftrightarrow>
     recs = sort_key timestamp (filter (\<lambda>r. lastTs < timestamp r) newRecords) \<and> recs \<noteq> [] \<and>
     w = \<lparr>lastTimestamp = timestamp (last recs), latestValue = Some (val (last recs)),
          lastUpdated = now\<rparr>"
  by (auto simp: mergeStep_def Let_def sort_key_eq_Nil)

lemma last_filter_holds: "xs \<noteq> [] \<Longrightarrow> P (last xs) \<Longrightarrow> last (filter P xs) = last xs"
  by (induction xs) (auto simp: filter_empty_conv)

text \<open>The last element of a list sorted by a key carries the greatest key.\<close>

lemma sorted_last_Max:
  "xs \<noteq> [] \<Longrightarrow> sorted (map f xs) \<Longrightarrow> f (last xs) = Max (f ` set xs)"
proof (induction xs)
  case Nil
  then show ?case by simp
next
  case (Cons x xs)
  show ?case
  proof (cases "xs = []")
    case True
    then show ?thesis by simp
  next
    case False
    have "f (last xs) = Max (f ` set xs)"
      using Cons False by simp
    moreover have "f x \<le> Max (f ` set xs)"
      using Cons.prems False by (simp add: Max_ge_iff) (meson last_in_set)
    ultimately show ?thesis
      using False by (simp add: max_def)
  qed
qed

text \<open>
  A stable sort ends with the last of the elements that carry the greatest key.
\<close>

lemma last_sort_key:
  assumes "xs \<noteq> []"
  shows "last (sort_key f xs) = last (filter (\<lambda>x. f x = Max (f ` set xs)) xs)"
proof -
  let ?ys = "sort_key f xs"
  have ne: "?ys \<noteq> []"
    using assms by (simp add: sort_key_eq_Nil)
  have "f (last ?ys) = Max (f ` set ?ys)"
    using ne by (intro sorted_last_Max) simp_all
  then have top: "f (last ?ys) = Max (f ` set xs)"
    by simp
  have "last ?ys = last (filter (\<lambda>x. f x = Max (f ` set xs)) ?ys)"
    using ne top by (simp add: last_filter_holds)
  then show ?thesis
    by (simp add: sort_key_stable)
qed

text \<open>
  Claim C1. The merge step selects exactly the fetched readings whose timestamp
  is strictly greater than the watermark's \<open>lastTimestamp\<close> (as a multiset: each
  of them, as often as it was fetched, and nothing else) and the increment is
  that selection sorted ascending by timestamp. When the increment is not empty,
  the new watermark's \<open>lastTimestamp\<close> is the greatest timestamp of the increment
  and its \<open>latestValue\<close> is the value of a reading of the increment with that
  timestamp. With watermark \<open>100\<close> and the fetched records
  \<open>[(90,v1),(100,v2),(110,v3),(120,v4)]\<close> the increment is \<open>[(110,v3),(120,v4)]\<close>
  and the new watermark is \<open>{lastTimestamp: 120, latestValue: v4}\<close>.
\<close>

theorem merge_step_increment:
  "mset (incrementOf (mergeStep fetched lastTs now))
      = filter_mset (\<lambda>r. lastTs < timestamp r) (mset fetched)
   \<and> sorted (map timestamp (incrementOf (mergeStep fetched lastTs now)))
   \<and> (incrementOf (mergeStep fetched lastTs now) \<noteq> [] \<longrightarrow>
        (\<exists>w r. newWatermarkOf (mergeStep fetched lastTs now) = Some w
           \<and> lastTimestamp w = Max (timestamp ` set (incrementOf (mergeStep fetched lastTs now)))
           \<and> r \<in> set (incrementOf (mergeStep fetched lastTs now))
           \<and> timestamp r = lastTimestamp w \<and> latestValue w = Some (val r)))
   \<and> mergeStep (toReadings key cfg [(90, v1), (100, v2), (110, v3), (120, v4)]) 100 now
        = Increment (toReadings key cfg [(110, v3), (120, v4)])
            \<lparr>lastTimestamp = 120, latestValue = Some v4, lastUpdated = now\<rparr>"
proof -
  let ?inc = "incrementOf (mergeStep fetched lastTs now)"
  have a: "mset ?inc = filter_mset (\<lambda>r. lastTs < timestamp r) (mset fetched)"
    by (simp add: incrementOf_mergeStep)
  have b: "sorted (map timestamp ?inc)"
    by (simp add: incrementOf_mergeStep)
  have c: "?inc \<noteq> [] \<longrightarrow>
        (\<exists>w r. newWatermarkOf (mergeStep fetched lastTs now) = Some w
           \<and> lastTimestamp w = Max (timestamp ` set ?inc)
           \<and> r \<in> set ?inc \<and> timestamp r = lastTimestamp w \<and> latestValue w = Some (val r))"
  proof
    assume ne: "?inc \<noteq> []"
    have top: "timestamp (last ?inc) = Max (timestamp ` set ?inc)"
      using ne b by (rule sorted_last_Max)
    show "\<exists>w r. newWatermarkOf (mergeStep fetched lastTs now) = Some w
           \<and> lastTimestamp w = Max (timestamp ` set ?inc)
           \<and> r \<in> set ?inc \<and> timestamp r = lastTimestamp w \<and> latestValue w = Some (val r)"
      apply (rule exI [of _ "\<lparr>lastTimestamp = timestamp (last ?inc),
                              latestValue = Some (val (last ?inc)), lastUpdated = now\<rparr>"])
      apply (rule exI [of _ "last ?inc"])
      using ne top by (simp add: newWatermarkOf_mergeStep)
  qed
  have d: "mergeStep (toReadings key cfg [(90, v1), (100, v2), (110, v3), (120, v4)]) 100 now
        = Increment (toReadings key cfg [(110, v3), (120, v4)])
            \<lparr>lastTimestamp = 120, latestValue = Some v4, lastUpdated = now\<rparr>"
    by (simp add: mergeStep_def toReadings_def)
  from a b c d show ?thesis by blast
qed

text \<open>
  The theorem at a fetch of three readings against the watermark \<open>100\<close>: the
  increment is not empty, so the new watermark exists and is as stated.
\<close>

theorem merge_step_increment_witness:
  "incrementOf (mergeStep (toReadings ''temperature'' (snd (SENSORS ! 10))
        [(120, 7 :: nat), (90, 8), (110, 9)]) 100 0) \<noteq> []
   \<and> (\<exists>w r. newWatermarkOf (mergeStep (toReadings ''temperature'' (snd (SENSORS ! 10))
                  [(120, 7 :: nat), (90, 8), (110, 9)]) 100 0) = Some w
         \<and> lastTimestamp w = Max (timestamp ` set (incrementOf (mergeStep
               (toReadings ''temperature'' (snd (SENSORS ! 10))
                  [(120, 7 :: nat), (90, 8), (110, 9)]) 100 0)))
         \<and> r \<in> set (incrementOf (mergeStep (toReadings ''temperature'' (snd (SENSORS ! 10))
                  [(120, 7 :: nat), (90, 8), (110, 9)]) 100 0))
         \<and> timestamp r = lastTimestamp w \<and> latestValue w = Some (val r))"
proof -
  let ?fetched = "toReadings ''temperature'' (snd (SENSORS ! 10)) [(120, 7 :: nat), (90, 8), (110, 9)]"
  have ne: "incrementOf (mergeStep ?fetched 100 0) \<noteq> []"
    by (simp add: mergeStep_def toReadings_def)
  note new = merge_step_increment [of ?fetched 100 0, THEN conjunct2, THEN conjunct2, THEN conjunct1]
  show ?thesis
    by (rule conjI [OF ne mp [OF new ne]])
qed

text \<open>
  Claim C2. Running the merge step on a fetched window, and then again on the
  same window against the watermark the first run leaves (the new watermark when
  there was an increment, the old one otherwise), gives an empty increment the
  second time.
\<close>

theorem merge_twice_empty:
  "incrementOf (mergeStep fetched
      (case newWatermarkOf (mergeStep fetched lastTs now) of
         None \<Rightarrow> lastTs | Some w \<Rightarrow> lastTimestamp w) now') = []"
proof (cases "incrementOf (mergeStep fetched lastTs now) = []")
  case True
  then show ?thesis
    by (simp add: newWatermarkOf_mergeStep) (simp add: incrementOf_mergeStep)
next
  case False
  let ?inc = "incrementOf (mergeStep fetched lastTs now)"
  have "timestamp (last ?inc) = Max (timestamp ` set ?inc)"
    using False by (intro sorted_last_Max) (simp_all add: incrementOf_mergeStep)
  then have "\<forall>r\<in>set fetched. lastTs < timestamp r \<longrightarrow> timestamp r \<le> timestamp (last ?inc)"
    by (simp add: incrementOf_mergeStep)
  moreover have "lastTs < timestamp (last ?inc)"
    using False last_in_set [OF False] by (simp add: incrementOf_mergeStep)
  ultimately have "filter (\<lambda>r. timestamp (last ?inc) < timestamp r) fetched = []"
    by (fastforce simp: filter_empty_conv)
  then show ?thesis
    using False
    by (simp add: newWatermarkOf_mergeStep incrementOf_mergeStep [of fetched "timestamp (last ?inc)"])
qed

text \<open>
  Claim C7, amended. The merge step keeps every fetched reading that is newer
  than the watermark, also those that share a timestamp: for each timestamp above
  the watermark the increment holds the fetched readings of that timestamp, all
  of them and in the order fetched, so the increment is free of repeated
  timestamps exactly when the fetched readings newer than the watermark are.
  Last-one-wins holds for the new watermark only: when the increment is not
  empty, the watermark's \<open>lastTimestamp\<close> is the greatest timestamp of the fetch
  and its \<open>latestValue\<close> is the value of the last fetched reading that carries
  this greatest timestamp.
\<close>

theorem increment_keeps_equal_timestamps:
  "(\<forall>t. filter (\<lambda>r. timestamp r = t) (incrementOf (mergeStep fetched lastTs now))
          = (if lastTs < t then filter (\<lambda>r. timestamp r = t) fetched else []))
   \<and> (distinct (map timestamp (incrementOf (mergeStep fetched lastTs now)))
        \<longleftrightarrow> distinct (map timestamp (filter (\<lambda>r. lastTs < timestamp r) fetched)))
   \<and> (incrementOf (mergeStep fetched lastTs now) \<noteq> [] \<longrightarrow>
        (\<exists>w. newWatermarkOf (mergeStep fetched lastTs now) = Some w
           \<and> lastTimestamp w = Max (timestamp ` set fetched)
           \<and> latestValue w
               = Some (val (last (filter (\<lambda>r. timestamp r = Max (timestamp ` set fetched))
                                    fetched)))))"
proof -
  let ?new = "filter (\<lambda>r. lastTs < timestamp r) fetched"
  let ?inc = "incrementOf (mergeStep fetched lastTs now)"
  have inc: "?inc = sort_key timestamp ?new"
    by (rule incrementOf_mergeStep)
  have a: "\<forall>t. filter (\<lambda>r. timestamp r = t) ?inc
          = (if lastTs < t then filter (\<lambda>r. timestamp r = t) fetched else [])"
  proof
    fix t
    have "filter (\<lambda>r. timestamp r = t) ?inc = filter (\<lambda>r. timestamp r = t) ?new"
      unfolding inc by (rule sort_key_stable)
    also have "\<dots> = filter (\<lambda>r. timestamp r = t \<and> lastTs < timestamp r) fetched"
      by (simp add: conj_commute)
    also have "\<dots> = (if lastTs < t then filter (\<lambda>r. timestamp r = t) fetched else [])"
      by (auto intro: filter_cong simp: filter_empty_conv)
    finally show "filter (\<lambda>r. timestamp r = t) ?inc
          = (if lastTs < t then filter (\<lambda>r. timestamp r = t) fetched else [])" .
  qed
  have "mset (map timestamp ?inc) = mset (map timestamp ?new)"
    unfolding inc by simp
  then have b: "distinct (map timestamp ?inc) \<longleftrightarrow> distinct (map timestamp ?new)"
    by (rule mset_eq_imp_distinct_iff)
  have c: "?inc \<noteq> [] \<longrightarrow>
        (\<exists>w. newWatermarkOf (mergeStep fetched lastTs now) = Some w
           \<and> lastTimestamp w = Max (timestamp ` set fetched)
           \<and> latestValue w
               = Some (val (last (filter (\<lambda>r. timestamp r = Max (timestamp ` set fetched))
                                    fetched))))"
  proof
    assume ne: "?inc \<noteq> []"
    then have new: "?new \<noteq> []"
      by (simp add: inc sort_key_eq_Nil)
    let ?top = "Max (timestamp ` set ?new)"
    have l: "last ?inc = last (filter (\<lambda>r. timestamp r = ?top) ?new)"
      unfolding inc using new by (rule last_sort_key)
    have top_in: "?top \<in> timestamp ` set ?new"
      using new by (intro Max_in) (auto simp: filter_empty_conv)
    then have above: "lastTs < ?top"
      by auto
    have greatest: "Max (timestamp ` set fetched) = ?top"
    proof (rule Max_eqI)
      show "finite (timestamp ` set fetched)"
        by simp
      show "?top \<in> timestamp ` set fetched"
        using top_in by auto
      fix y
      assume "y \<in> timestamp ` set fetched"
      then obtain r where r: "r \<in> set fetched" "y = timestamp r"
        by auto
      show "y \<le> ?top"
      proof (cases "lastTs < timestamp r")
        case True
        then have "timestamp r \<in> timestamp ` set ?new"
          using r(1) by simp
        then show ?thesis
          unfolding r(2) by (intro Max_ge) simp_all
      next
        case False
        then show ?thesis
          using above r(2) by simp
      qed
    qed
    have sel: "filter (\<lambda>r. timestamp r = ?top) ?new = filter (\<lambda>r. timestamp r = ?top) fetched"
      using above by (auto intro: filter_cong)
    have "sorted (map timestamp ?inc)"
      by (simp add: inc)
    then have ts: "timestamp (last ?inc) = ?top"
      using ne sorted_last_Max [of ?inc timestamp] by (simp add: inc)
    show "\<exists>w. newWatermarkOf (mergeStep fetched lastTs now) = Some w
           \<and> lastTimestamp w = Max (timestamp ` set fetched)
           \<and> latestValue w
               = Some (val (last (filter (\<lambda>r. timestamp r = Max (timestamp ` set fetched))
                                    fetched)))"
      unfolding greatest using ne ts l sel by (simp add: newWatermarkOf_mergeStep)
  qed
  from a b c show ?thesis by blast
qed

text \<open>
  The theorem at a fetch of four readings against the watermark \<open>100\<close>, two of
  timestamp \<open>110\<close> and two of timestamp \<open>120\<close>: the increment is not empty, both
  readings of timestamp \<open>110\<close> are in it in the order fetched, and the new
  watermark is at \<open>120\<close> with the value \<open>3\<close> of the last fetched reading of
  timestamp \<open>120\<close>.
\<close>

theorem increment_keeps_equal_timestamps_witness:
  "incrementOf (mergeStep (toReadings ''barometricPressure'' (snd (SENSORS ! 0))
       [(110, 1 :: nat), (120, 2), (120, 3), (110, 4)]) 100 0) \<noteq> []
   \<and> filter (\<lambda>r. timestamp r = 110)
        (incrementOf (mergeStep (toReadings ''barometricPressure'' (snd (SENSORS ! 0))
           [(110, 1 :: nat), (120, 2), (120, 3), (110, 4)]) 100 0))
      = toReadings ''barometricPressure'' (snd (SENSORS ! 0)) [(110, 1 :: nat), (110, 4)]
   \<and> (\<exists>w. newWatermarkOf (mergeStep (toReadings ''barometricPressure'' (snd (SENSORS ! 0))
                [(110, 1 :: nat), (120, 2), (120, 3), (110, 4)]) 100 0) = Some w
          \<and> lastTimestamp w = 120 \<and> latestValue w = Some 3)"
proof -
  let ?fetched = "toReadings ''barometricPressure'' (snd (SENSORS ! 0))
                    [(110, 1 :: nat), (120, 2), (120, 3), (110, 4)]"
  note kept = increment_keeps_equal_timestamps [of ?fetched 100 0]
  have ne: "incrementOf (mergeStep ?fetched 100 0) \<noteq> []"
    by (simp add: mergeStep_def toReadings_def)
  have "filter (\<lambda>r. timestamp r = 110) (incrementOf (mergeStep ?fetched 100 0))
          = (if (100::int) < 110 then filter (\<lambda>r. timestamp r = 110) ?fetched else [])"
    using kept [THEN conjunct1] by (rule spec)
  then have both: "filter (\<lambda>r. timestamp r = 110) (incrementOf (mergeStep ?fetched 100 0))
          = toReadings ''barometricPressure'' (snd (SENSORS ! 0)) [(110, 1 :: nat), (110, 4)]"
    by (simp add: toReadings_def)
  have greatest: "Max (timestamp ` set ?fetched) = 120"
    by (simp add: toReadings_def)
  have winner: "val (last (filter (\<lambda>r. timestamp r = 120) ?fetched)) = 3"
    by (simp add: toReadings_def)
  from mp [OF kept [THEN conjunct2, THEN conjunct2] ne]
  obtain w where "newWatermarkOf (mergeStep ?fetched 100 0) = Some w"
    and "lastTimestamp w = Max (timestamp ` set ?fetched)"
    and "latestValue w = Some (val (last (filter
            (\<lambda>r. timestamp r = Max (timestamp ` set ?fetched)) ?fetched)))"
    by blast
  then have "newWatermarkOf (mergeStep ?fetched 100 0) = Some w
      \<and> lastTimestamp w = 120 \<and> latestValue w = Some 3"
    unfolding greatest winner by simp
  then have last_wins: "\<exists>w. newWatermarkOf (mergeStep ?fetched 100 0) = Some w
      \<and> lastTimestamp w = 120 \<and> latestValue w = Some 3"
    by (rule exI)
  show ?thesis
    by (rule conjI [OF ne conjI [OF both last_wins]])
qed

text \<open>
  Claim C7 as stated fails: two fetched readings of timestamp \<open>110\<close>, both newer
  than the watermark \<open>100\<close>, are both in the increment.
\<close>

theorem increment_repeats_timestamp:
  "incrementOf (mergeStep (toReadings ''barometricPressure'' (snd (SENSORS ! 0))
       [(110, 1 :: nat), (110, 2)]) 100 0)
     = toReadings ''barometricPressure'' (snd (SENSORS ! 0)) [(110, 1), (110, 2)]
   \<and> \<not> distinct (map timestamp (incrementOf (mergeStep
         (toReadings ''barometricPressure'' (snd (SENSORS ! 0)) [(110, 1 :: nat), (110, 2)]) 100 0)))"
  by code_simp


section \<open>Properties of the append\<close>

text \<open>What the multi-location update of an increment leaves at each path.\<close>

lemma fold_PutRecord_fields:
  "sensorMeta (fold applyUpdate (map (\<lambda>(idx, r). PutRecord key (c + idx) r) (enumerate n recs)) s) = sensorMeta s"
  "recordCount (fold applyUpdate (map (\<lambda>(idx, r). PutRecord key (c + idx) r) (enumerate n recs)) s) = recordCount s"
  "logLastUpdated (fold applyUpdate (map (\<lambda>(idx, r). PutRecord key (c + idx) r) (enumerate n recs)) s) = logLastUpdated s"
  "metadata (fold applyUpdate (map (\<lambda>(idx, r). PutRecord key (c + idx) r) (enumerate n recs)) s) = metadata s"
  "history (fold applyUpdate (map (\<lambda>(idx, r). PutRecord key (c + idx) r) (enumerate n recs)) s) = history s"
  by (induction recs arbitrary: n s; simp)+

lemma fold_PutRecord_logData:
  "logData (fold applyUpdate (map (\<lambda>(idx, r). PutRecord key (c + idx) r) (enumerate n recs)) s) k i =
     (if k = key \<and> c + n \<le> i \<and> i < c + n + length recs then Some (recs ! (i - (c + n)))
      else logData s k i)"
proof (induction recs arbitrary: n s)
  case Nil
  then show ?case by auto
next
  case (Cons r recs)
  show ?case
    by (simp add: Cons.IH [of "Suc n"])
qed

lemma updateStore_buildUpdates_sensorMeta:
  "sensorMeta (updateStore (buildUpdates key c recs now w) s) = (sensorMeta s)(key \<mapsto> w)"
  by (simp add: updateStore_def buildUpdates_def fold_PutRecord_fields)

lemma updateStore_buildUpdates_recordCount:
  "recordCount (updateStore (buildUpdates key c recs now w) s) = (recordCount s)(key \<mapsto> c + length recs)"
  by (simp add: updateStore_def buildUpdates_def fold_PutRecord_fields)

lemma updateStore_buildUpdates_logLastUpdated:
  "logLastUpdated (updateStore (buildUpdates key c recs now w) s) = (logLastUpdated s)(key \<mapsto> now)"
  by (simp add: updateStore_def buildUpdates_def fold_PutRecord_fields)

lemma updateStore_buildUpdates_metadata:
  "metadata (updateStore (buildUpdates key c recs now w) s) = metadata s"
  by (simp add: updateStore_def buildUpdates_def fold_PutRecord_fields)

lemma updateStore_buildUpdates_history:
  "history (updateStore (buildUpdates key c recs now w) s) = history s"
  by (simp add: updateStore_def buildUpdates_def fold_PutRecord_fields)

lemma updateStore_buildUpdates_logData:
  "logData (updateStore (buildUpdates key c recs now w) s) k i =
     (if k = key \<and> c \<le> i \<and> i < c + length recs then Some (recs ! (i - c)) else logData s k i)"
  using fold_PutRecord_logData [of key c 0 recs s k i]
  by (simp add: updateStore_def buildUpdates_def)


lemma appendRecords_Some:
  "appendRecords e key recs w s = Some s' \<longleftrightarrow>
     countReadOk e key \<and> updateOk e key \<and>
     s' = updateStore (buildUpdates key (currentCountOf s key) recs (nowLog e key) w) s"
  by (auto simp: appendRecords_def appendUpdates_def)

lemma appendRecords_None:
  "appendRecords e key recs w s = None \<longleftrightarrow> \<not> (countReadOk e key \<and> updateOk e key)"
  by (auto simp: appendRecords_def)

text \<open>
  Claim C4. A successful append of an increment of \<open>n\<close> readings, with \<open>c\<close> the
  record count read (\<open>0\<close> when there is none), writes the readings at the
  positions \<open>c, \<dots>, c + n - 1\<close> of the log in their order, leaves every other
  position as it was and sets \<open>recordCount\<close> to \<open>c + n\<close>. The paths and values
  written depend on the store through the record count of the sensor only. With
  a record count of \<open>50\<close> and two readings, these go to the positions \<open>50\<close> and \<open>51\<close>
  and the record count becomes \<open>52\<close>.
\<close>

theorem append_writes_at_record_count:
  assumes ok: "countReadOk e key" "updateOk e key"
  shows "\<exists>s'. appendRecords e key recs w s = Some s'
      \<and> (\<forall>i<length recs. logData s' key (currentCountOf s key + i) = Some (recs ! i))
      \<and> (\<forall>j. j < currentCountOf s key \<or> currentCountOf s key + length recs \<le> j
             \<longrightarrow> logData s' key j = logData s key j)
      \<and> recordCount s' key = Some (currentCountOf s key + length recs)
      \<and> (\<forall>s2. recordCount s2 key = recordCount s key
             \<longrightarrow> appendUpdates e key recs w s2 = appendUpdates e key recs w s)
      \<and> (recordCount s key = Some 50 \<and> recs = [r1, r2]
           \<longrightarrow> logData s' key 50 = Some r1 \<and> logData s' key 51 = Some r2
               \<and> recordCount s' key = Some 52)"
proof -
  let ?c = "currentCountOf s key"
  let ?s' = "updateStore (buildUpdates key ?c recs (nowLog e key) w) s"
  have res: "appendRecords e key recs w s = Some ?s'"
    using ok by (simp add: appendRecords_Some)
  have at: "\<forall>i<length recs. logData ?s' key (?c + i) = Some (recs ! i)"
    by (simp add: updateStore_buildUpdates_logData)
  have rest: "\<forall>j. j < ?c \<or> ?c + length recs \<le> j \<longrightarrow> logData ?s' key j = logData s key j"
    by (auto simp: updateStore_buildUpdates_logData)
  have cnt: "recordCount ?s' key = Some (?c + length recs)"
    by (simp add: updateStore_buildUpdates_recordCount)
  have only: "\<forall>s2. recordCount s2 key = recordCount s key
             \<longrightarrow> appendUpdates e key recs w s2 = appendUpdates e key recs w s"
    by (simp add: appendUpdates_def currentCountOf_def)
  have scen: "recordCount s key = Some 50 \<and> recs = [r1, r2]
           \<longrightarrow> logData ?s' key 50 = Some r1 \<and> logData ?s' key 51 = Some r2
               \<and> recordCount ?s' key = Some 52"
    by (simp add: updateStore_buildUpdates_logData updateStore_buildUpdates_recordCount
          currentCountOf_def)
  from res at rest cnt only scen show ?thesis by blast
qed

text \<open>
  The theorem at the append of two readings to a log whose record count is
  \<open>50\<close>.
\<close>

theorem append_writes_at_record_count_witness:
  "countReadOk (exampleEnv (onlyBarometer []) True True) ''barometricPressure''
   \<and> updateOk (exampleEnv (onlyBarometer []) True True) ''barometricPressure''
   \<and> (\<exists>s'. appendRecords (exampleEnv (onlyBarometer []) True True) ''barometricPressure''
              (toReadings ''barometricPressure'' (snd (SENSORS ! 0)) [(110, 1), (120, 2)])
              \<lparr>lastTimestamp = 120, latestValue = Some 2, lastUpdated = 7200010\<rparr>
              (exampleStore\<lparr>recordCount := [''barometricPressure'' \<mapsto> 50]\<rparr>) = Some s'
          \<and> logData s' ''barometricPressure'' 50
              = Some \<lparr>timestamp = 110, val = 1, sensorKey = ''barometricPressure'', unit = ''mbar''\<rparr>
          \<and> logData s' ''barometricPressure'' 51
              = Some \<lparr>timestamp = 120, val = 2, sensorKey = ''barometricPressure'', unit = ''mbar''\<rparr>
          \<and> recordCount s' ''barometricPressure'' = Some 52)"
proof -
  let ?e = "exampleEnv (onlyBarometer []) True True"
  let ?s = "exampleStore\<lparr>recordCount := [''barometricPressure'' \<mapsto> 50]\<rparr>"
  let ?r1 = "\<lparr>timestamp = 110, val = 1 :: nat, sensorKey = ''barometricPressure'', unit = ''mbar''\<rparr>"
  let ?r2 = "\<lparr>timestamp = 120, val = 2 :: nat, sensorKey = ''barometricPressure'', unit = ''mbar''\<rparr>"
  let ?recs = "toReadings ''barometricPressure'' (snd (SENSORS ! 0)) [(110, 1 :: nat), (120, 2)]"
  let ?w = "\<lparr>lastTimestamp = 120, latestValue = Some (2 :: nat), lastUpdated = 7200010\<rparr>"
  have ok: "countReadOk ?e ''barometricPressure''" "updateOk ?e ''barometricPressure''"
    by (simp_all add: exampleEnv_def)
  have fifty: "recordCount ?s ''barometricPressure'' = Some 50 \<and> ?recs = [?r1, ?r2]"
    by (simp add: toReadings_def SENSORS_def)
  from append_writes_at_record_count
         [OF ok, where recs = ?recs and w = ?w and s = ?s and ?r1.0 = ?r1 and ?r2.0 = ?r2]
  obtain s' where "appendRecords ?e ''barometricPressure'' ?recs ?w ?s = Some s'"
    and "recordCount ?s ''barometricPressure'' = Some 50 \<and> ?recs = [?r1, ?r2]
           \<longrightarrow> logData s' ''barometricPressure'' 50 = Some ?r1
               \<and> logData s' ''barometricPressure'' 51 = Some ?r2
               \<and> recordCount s' ''barometricPressure'' = Some 52"
    by blast
  with fifty ok show ?thesis by blast
qed


section \<open>Properties of the loop over the sensors\<close>

lemma lastTimestamp_Increment:
  "mergeStep newRecords lastTs now = Increment recs w \<Longrightarrow> lastTs < lastTimestamp w"
proof -
  assume m: "mergeStep newRecords lastTs now = Increment recs w"
  then have ne: "recs \<noteq> []" and w: "lastTimestamp w = timestamp (last recs)"
    and recs: "set recs = {r \<in> set newRecords. lastTs < timestamp r}"
    by (auto simp: mergeStep_Increment)
  have "last recs \<in> set recs" using ne by simp
  then show ?thesis using w recs by simp
qed

text \<open>
  What an iteration does to the store: nothing, or the multi-location update of
  a non-empty increment.
\<close>

lemma processSensor_store:
  "store (stateAfter (processSensor e lts a b (key, cfg) st)) = store st
   \<or> (\<exists>res recs w. fst (fetchSensor e key cfg a b 3) = Some res
         \<and> mergeStep (data res) (lastTsOf lts key) (nowWatermark e key) = Increment recs w
         \<and> countReadOk e key \<and> updateOk e key
         \<and> store (stateAfter (processSensor e lts a b (key, cfg) st))
             = updateStore (buildUpdates key (currentCountOf (store st) key) recs (nowLog e key) w)
                 (store st))"
  by (auto simp: processSensor_def stateAfter_def pace_def Let_def appendRecords_def appendUpdates_def
           split: prod.splits option.splits merged.splits)

lemma processSensor_throws_iff:
  "(\<exists>st'. processSensor e lts a b (key, cfg) st = Inl st')
     \<longleftrightarrow> fst (fetchSensor e key cfg a b 3) = None"
  by (auto simp: processSensor_def pace_def Let_def
           split: prod.splits option.splits merged.splits)

lemma processSensors_invariant:
  assumes step: "\<And>entry st. P st \<Longrightarrow> P (stateAfter (processSensor e lts a b entry st))"
    and init: "P st"
  shows "P (stateAfter (processSensors e lts a b entries st))"
  using init
proof (induction entries arbitrary: st)
  case Nil
  then show ?case by (simp add: stateAfter_def)
next
  case (Cons entry entries)
  have P': "P (stateAfter (processSensor e lts a b entry st))"
    using Cons.prems by (rule step)
  show ?case
  proof (cases "processSensor e lts a b entry st")
    case (Inl st')
    then show ?thesis using P' by (simp add: stateAfter_def)
  next
    case (Inr st')
    then have "P st'" using P' by (simp add: stateAfter_def)
    then show ?thesis using Inr Cons.IH by simp
  qed
qed

lemma processSensors_throws:
  assumes "entry \<in> set entries" "fst (fetchSensor e (fst entry) (snd entry) a b 3) = None"
  shows "\<exists>st'. processSensors e lts a b entries st = Inl st'"
  using assms(1)
proof (induction entries arbitrary: st)
  case Nil
  then show ?case by simp
next
  case (Cons x entries)
  show ?case
  proof (cases "processSensor e lts a b x st")
    case (Inl st')
    then show ?thesis by simp
  next
    case (Inr st')
    have "x \<noteq> entry"
    proof
      assume "x = entry"
      then have "\<exists>st'. processSensor e lts a b x st = Inl st'"
        using assms(2) processSensor_throws_iff [of e lts a b "fst entry" "snd entry" st] by simp
      then show False using Inr by simp
    qed
    then have "entry \<in> set entries" using Cons.prems by auto
    then show ?thesis using Inr Cons.IH by simp
  qed
qed

lemma processSensor_summary_paths:
  "metadata (store (stateAfter (processSensor e lts a b entry st))) = metadata (store st)
   \<and> history (store (stateAfter (processSensor e lts a b entry st))) = history (store st)"
proof -
  obtain key cfg where entry: "entry = (key, cfg)" by (cases entry)
  from processSensor_store [of e lts a b key cfg st] show ?thesis
    unfolding entry
    by (elim disjE exE conjE)
       (simp_all add: updateStore_buildUpdates_metadata updateStore_buildUpdates_history)
qed

lemma processSensors_summary_paths:
  "metadata (store (stateAfter (processSensors e lts a b entries st))) = metadata (store st)
   \<and> history (store (stateAfter (processSensors e lts a b entries st))) = history (store st)"
  by (rule processSensors_invariant
        [where P = "\<lambda>st'. metadata (store st') = metadata (store st) \<and> history (store st') = history (store st)"])
     (simp_all add: processSensor_summary_paths)

lemma run_sensor_fields:
  fixes e :: "'v env" and s :: "'v store" and sensors :: "(sensorKey \<times> sensorConfig) list"
  defines "st \<equiv> stateAfter (processSensors e (if metaReadOk e then sensorMeta s else Map.empty)
                    (nowStart e - 2 * 60 * 60 * 1000) (nowStart e) sensors
                    (initialState s))"
  shows "snd (run sensors e s) = s
         \<or> (sensorMeta (snd (run sensors e s)) = sensorMeta (store st)
            \<and> recordCount (snd (run sensors e s)) = recordCount (store st)
            \<and> logData (snd (run sensors e s)) = logData (store st))"
  by (auto simp: run_def st_def stateAfter_def Let_def split: sum.splits)

lemma same_fields_untouched:
  "sensorMeta s1 = sensorMeta s2 \<and> recordCount s1 = recordCount s2 \<and> logData s1 = logData s2
   \<Longrightarrow> untouched s s1 key = untouched s s2 key"
  by (simp add: untouched_def)

lemma same_fields_appended:
  "sensorMeta s1 = sensorMeta s2 \<and> recordCount s1 = recordCount s2 \<and> logData s1 = logData s2
   \<Longrightarrow> appended s s1 t key = appended s s2 t key"
  by (simp add: appended_def currentCountOf_def)

lemma step_untouched_or_appended:
  assumes "untouched s (store st) key \<or> appended s (store st) (lastTsOf lts key) key"
  shows "untouched s (store (stateAfter (processSensor e lts a b entry st))) key
         \<or> appended s (store (stateAfter (processSensor e lts a b entry st))) (lastTsOf lts key) key"
proof -
  obtain key' cfg where entry: "entry = (key', cfg)" by (cases entry)
  let ?st' = "stateAfter (processSensor e lts a b (key', cfg) st)"
  from processSensor_store [of e lts a b key' cfg st] show ?thesis
  proof (elim disjE exE conjE)
    assume "store ?st' = store st"
    then show ?thesis using assms entry by simp
  next
    fix res recs w
    assume upd:
      "mergeStep (data res) (lastTsOf lts key') (nowWatermark e key') = Increment recs w"
      "store ?st' = updateStore (buildUpdates key' (currentCountOf (store st) key') recs (nowLog e key') w) (store st)"
    show ?thesis
    proof (cases "key' = key")
      case False
      then have "sensorMeta (store ?st') key = sensorMeta (store st) key"
        "recordCount (store ?st') key = recordCount (store st) key"
        "logData (store ?st') key = logData (store st) key"
        using upd(2)
        by (auto simp: updateStore_buildUpdates_sensorMeta updateStore_buildUpdates_recordCount
              updateStore_buildUpdates_logData fun_eq_iff)
      then show ?thesis using assms entry
        by (simp add: untouched_def appended_def currentCountOf_def)
    next
      case True
      have ne: "recs \<noteq> []" and w: "lastTimestamp w = timestamp (last recs)"
        using upd(1) by (auto simp: mergeStep_Increment)
      have above: "lastTsOf lts key < lastTimestamp w"
        using upd(1) True by (auto dest: lastTimestamp_Increment)
      have cnt: "currentCountOf (store ?st') key = currentCountOf (store st) key + length recs"
        using upd(2) True by (simp add: currentCountOf_def updateStore_buildUpdates_recordCount)
      have meta: "sensorMeta (store ?st') key = Some w"
        using upd(2) True by (simp add: updateStore_buildUpdates_sensorMeta)
      have pos: "0 < length recs"
        using ne by simp
      have idx: "currentCountOf (store ?st') key - 1
                   = currentCountOf (store st) key + (length recs - 1)"
        using cnt pos by arith
      have "logData (store ?st') key (currentCountOf (store st) key + (length recs - 1))
              = Some (recs ! (length recs - 1))"
        using upd(2) True pos by (simp add: updateStore_buildUpdates_logData)
      then have lastr: "logData (store ?st') key (currentCountOf (store ?st') key - 1) = Some (last recs)"
        using idx ne by (simp add: last_conv_nth)
      have grow: "currentCountOf s key \<le> currentCountOf (store st) key"
        using assms by (auto simp: untouched_def appended_def currentCountOf_def)
      have lt: "currentCountOf s key < currentCountOf (store ?st') key"
        using pos cnt grow by arith
      have "appended s (store ?st') (lastTsOf lts key) key"
        unfolding appended_def using lt meta lastr above w by simp
      then show ?thesis using entry by simp
    qed
  qed
qed

lemma run_untouched_or_appended:
  "untouched s (snd (run sensors e s)) key
   \<or> appended s (snd (run sensors e s)) (lastTsOf (if metaReadOk e then sensorMeta s else Map.empty) key) key"
proof -
  let ?lts = "if metaReadOk e then sensorMeta s else Map.empty"
  let ?init = "initialState s"
  let ?st = "stateAfter (processSensors e ?lts (nowStart e - 2 * 60 * 60 * 1000) (nowStart e) sensors ?init)"
  have "untouched s (store ?st) key \<or> appended s (store ?st) (lastTsOf ?lts key) key"
  proof (rule processSensors_invariant
          [where P = "\<lambda>st. untouched s (store st) key \<or> appended s (store st) (lastTsOf ?lts key) key"])
    fix entry and st :: "'a state"
    assume "untouched s (store st) key \<or> appended s (store st) (lastTsOf ?lts key) key"
    then show "untouched s (store (stateAfter (processSensor e ?lts (nowStart e - 2 * 60 * 60 * 1000)
                   (nowStart e) entry st))) key
         \<or> appended s (store (stateAfter (processSensor e ?lts (nowStart e - 2 * 60 * 60 * 1000)
                   (nowStart e) entry st))) (lastTsOf ?lts key) key"
      by (rule step_untouched_or_appended)
  next
    show "untouched s (store ?init) key \<or> appended s (store ?init) (lastTsOf ?lts key) key"
      by (simp add: untouched_def initialState_def)
  qed
  note inv = this
  from run_sensor_fields [of sensors e s] show ?thesis
  proof
    assume "snd (run sensors e s) = s"
    then show ?thesis by (simp add: untouched_def)
  next
    assume "sensorMeta (snd (run sensors e s)) = sensorMeta (store ?st)
            \<and> recordCount (snd (run sensors e s)) = recordCount (store ?st)
            \<and> logData (snd (run sensors e s)) = logData (store ?st)"
    then have eq: "sensorMeta (snd (run sensors e s)) = sensorMeta (store ?st)
            \<and> recordCount (snd (run sensors e s)) = recordCount (store ?st)
            \<and> logData (snd (run sensors e s)) = logData (store ?st)" .
    show ?thesis
      unfolding same_fields_untouched [OF eq] same_fields_appended [OF eq] by (rule inv)
  qed
qed

text \<open>
  Claim C6, amended. In every run whose bulk read of \<open>sensorMeta\<close> at the start
  succeeds (whether fetches fail, return nothing new, appends fail or the run
  aborts), the \<open>lastTimestamp\<close> of every sensor after the run is at least its
  value before the run. The watermark is written only in the update that
  appends: after the run, either the watermark, the record count and the log of
  the sensor are as before, or the record count has grown and the watermark's
  \<open>lastTimestamp\<close> is above the old one and is the timestamp of the last reading
  of the log.
\<close>

theorem watermark_moves_with_append:
  assumes "metaReadOk e"
  shows "watermarkTs s key \<le> watermarkTs (snd (main e s)) key
         \<and> (untouched s (snd (main e s)) key \<or> appended s (snd (main e s)) (watermarkTs s key) key)"
proof -
  have *: "untouched s (snd (main e s)) key \<or> appended s (snd (main e s)) (watermarkTs s key) key"
    using run_untouched_or_appended [of s SENSORS e key] assms
    by (simp add: main_def watermarkTs_def)
  then have "watermarkTs s key \<le> watermarkTs (snd (main e s)) key"
    by (auto simp: untouched_def appended_def watermarkTs_def lastTsOf_def)
  with * show ?thesis by simp
qed

text \<open>
  The theorem at a run that reads the watermarks and fetches one new reading for
  the barometric pressure sensor.
\<close>

theorem watermark_moves_with_append_witness:
  "metaReadOk (exampleEnv (onlyBarometer [(110, 6)]) True True)
   \<and> (watermarkTs exampleStore ''barometricPressure''
        \<le> watermarkTs (snd (main (exampleEnv (onlyBarometer [(110, 6)]) True True) exampleStore))
            ''barometricPressure''
      \<and> (untouched exampleStore
            (snd (main (exampleEnv (onlyBarometer [(110, 6)]) True True) exampleStore))
            ''barometricPressure''
         \<or> appended exampleStore
            (snd (main (exampleEnv (onlyBarometer [(110, 6)]) True True) exampleStore))
            (watermarkTs exampleStore ''barometricPressure'') ''barometricPressure''))"
proof -
  have readOk: "metaReadOk (exampleEnv (onlyBarometer [(110, 6)]) True True)"
    by (simp add: exampleEnv_def)
  show ?thesis
    by (rule conjI [OF readOk watermark_moves_with_append [OF readOk]])
qed

text \<open>
  Claim C6 as stated fails on a run whose bulk read of \<open>sensorMeta\<close> throws: the
  run starts from no watermarks (\<open>lastTs = 0\<close> for every sensor), so a fetched
  reading of timestamp \<open>50\<close> is new, it is appended, and the stored watermark
  goes from \<open>100\<close> down to \<open>50\<close>.
\<close>

theorem watermark_decreases_after_failed_read:
  "watermarkTs exampleStore ''barometricPressure'' = 100
   \<and> watermarkTs (snd (main (exampleEnv (onlyBarometer [(50, 3)]) False True) exampleStore))
        ''barometricPressure'' = 50"
  by code_simp

text \<open>
  Claim C10. When every one of the \<open>retries\<close> attempts of a fetch receives an
  HTTP 429 response, \<open>fetchSensor\<close> waits \<open>2 ^ attempt * 2000\<close> milliseconds after
  each attempt and returns \<open>undefined\<close>. In \<open>main\<close>, where \<open>retries\<close> is \<open>3\<close>, this
  aborts the run: the process exits with code 1 and neither
  \<open>weatherData/metadata\<close> nor a history entry is written.
\<close>

theorem rate_limit_exhaustion_aborts_run:
  assumes limited: "\<forall>attempt<retries. \<exists>txt b.
             upstream e (sn cfg) startTime endTime attempt = Http 429 txt b"
  shows "fetchSensor e key cfg startTime endTime retries
           = (None, map (\<lambda>attempt. 2 ^ attempt * 2000) [0..<retries])
         \<and> (apiTokenSet e \<and> serviceAccountSet e \<and> (key, cfg) \<in> set SENSORS \<and> retries = 3
              \<and> endTime = nowStart e \<and> startTime = nowStart e - 2 * 60 * 60 * 1000
            \<longrightarrow> fst (main e s) = 1 \<and> metadata (snd (main e s)) = metadata s
                \<and> history (snd (main e s)) = history s)"
proof -
  have undef: "fetchSensor e key cfg startTime endTime retries
                 = (None, map (\<lambda>attempt. 2 ^ attempt * 2000) [0..<retries])"
    unfolding fetchSensor_def
    by (rule fetchLoop_rate_limited) (use limited in \<open>simp add: tryAttempt_RateLimited_iff\<close>)
  have "fst (main e s) = 1 \<and> metadata (snd (main e s)) = metadata s
          \<and> history (snd (main e s)) = history s"
    if ok: "apiTokenSet e" "serviceAccountSet e" and sensor: "(key, cfg) \<in> set SENSORS"
      and three: "retries = 3" and window: "endTime = nowStart e"
        "startTime = nowStart e - 2 * 60 * 60 * 1000"
  proof -
    let ?lts = "if metaReadOk e then sensorMeta s else Map.empty"
    let ?init = "initialState s"
    let ?loop = "processSensors e ?lts (nowStart e - 2 * 60 * 60 * 1000) (nowStart e) SENSORS ?init"
    have "fst (fetchSensor e (fst (key, cfg)) (snd (key, cfg))
                 (nowStart e - 2 * 60 * 60 * 1000) (nowStart e) 3) = None"
      using undef three window by simp
    with sensor obtain st' where thrown: "?loop = Inl st'"
      using processSensors_throws [of "(key, cfg)" SENSORS e "nowStart e - 2 * 60 * 60 * 1000" "nowStart e" ?lts ?init]
      by blast
    have "metadata (store (stateAfter ?loop)) = metadata (store ?init)
          \<and> history (store (stateAfter ?loop)) = history (store ?init)"
      by (rule processSensors_summary_paths)
    then have kept: "metadata (store st') = metadata s" "history (store st') = history s"
      using thrown by (simp_all add: stateAfter_def initialState_def)
    have "main e s = (1, store st')"
      using ok thrown by (simp add: main_def run_def Let_def)
    then show ?thesis using kept by simp
  qed
  with undef show ?thesis by blast
qed

text \<open>The theorem at a run in which the upstream only ever answers 429.\<close>

theorem rate_limit_exhaustion_aborts_run_witness:
  "upstream (exampleEnv alwaysRateLimited True True) (sn (snd (SENSORS ! 10))) 0 7200000 0
     = Http 429 ''Too Many Requests'' (Records [])
   \<and> upstream (exampleEnv alwaysRateLimited True True) (sn (snd (SENSORS ! 10))) 0 7200000 1
     = Http 429 ''Too Many Requests'' (Records [])
   \<and> upstream (exampleEnv alwaysRateLimited True True) (sn (snd (SENSORS ! 10))) 0 7200000 2
     = Http 429 ''Too Many Requests'' (Records [])
   \<and> fetchSensor (exampleEnv alwaysRateLimited True True) ''temperature'' (snd (SENSORS ! 10))
        0 7200000 3 = (None, [2000, 4000, 8000])
   \<and> fst (main (exampleEnv alwaysRateLimited True True) exampleStore) = 1
   \<and> metadata (snd (main (exampleEnv alwaysRateLimited True True) exampleStore)) = None"
proof -
  let ?e = "exampleEnv alwaysRateLimited True True"
  have always: "upstream ?e serial startTime endTime attempt
                  = Http 429 ''Too Many Requests'' (Records [])"
    for serial startTime endTime attempt
    by (simp add: exampleEnv_def alwaysRateLimited_def)
  have limited: "\<forall>attempt<3. \<exists>txt b.
      upstream ?e (sn (snd (SENSORS ! 10))) 0 7200000 attempt = Http 429 txt b"
    by (simp add: always)
  have given: "apiTokenSet ?e \<and> serviceAccountSet ?e
      \<and> (''temperature'', snd (SENSORS ! 10)) \<in> set SENSORS \<and> (3::nat) = 3
      \<and> (7200000::int) = nowStart ?e \<and> (0::int) = nowStart ?e - 2 * 60 * 60 * 1000"
    by (simp add: exampleEnv_def SENSORS_def)
  note aborts = rate_limit_exhaustion_aborts_run
                  [OF limited, of "''temperature''" exampleStore]
  have "fetchSensor ?e ''temperature'' (snd (SENSORS ! 10)) 0 7200000 3 = (None, [2000, 4000, 8000])"
    using aborts [THEN conjunct1] by (simp add: upt_rec)
  moreover have "fst (main ?e exampleStore) = 1
      \<and> metadata (snd (main ?e exampleStore)) = metadata exampleStore"
    using aborts [THEN conjunct2] given by blast
  moreover have "metadata exampleStore = None"
    by (simp add: exampleStore_def)
  ultimately show ?thesis by (simp add: always)
qed

text \<open>
  Claim C3 at the input it fails on: the upstream answers all three attempts
  with 429. \<open>fetchSensor\<close> waits 2000, 4000 and 8000 milliseconds and returns
  \<open>undefined\<close>, not a result with empty readings and an error; \<open>main\<close> then throws
  at \<open>result.data\<close> and the process exits with code 1 without a summary, at the
  first sensor.
\<close>

theorem fetch_rate_limited_returns_undefined:
  "fetchSensor (exampleEnv alwaysRateLimited True True) ''barometricPressure''
       (snd (SENSORS ! 0)) 0 7200000 3 = (None, [2000, 4000, 8000])
   \<and> fst (main (exampleEnv alwaysRateLimited True True) exampleStore) = 1
   \<and> metadata (snd (main (exampleEnv alwaysRateLimited True True) exampleStore)) = None
   \<and> history (snd (main (exampleEnv alwaysRateLimited True True) exampleStore)) 7200050 = None"
  by code_simp

text \<open>
  Claim C5, amended. When the append of a non-empty increment fails (the read of
  the record count or the multi-location update throws), the store is left as it
  was, so the watermark, the log and the record count of the sensor are
  unchanged; the sensor is not counted in \<open>successfulSensors\<close> nor its readings in
  \<open>totalNewRecords\<close>; the loop goes on with the next sensor. The latest value of
  the sensor in the run summary is set nevertheless, to the value of the newest
  reading of the increment: \<open>latestValues\<close> is assigned before the \<open>try\<close> block.
\<close>

theorem failed_write_keeps_store:
  assumes fetched: "fst (fetchSensor e key cfg startTime endTime 3) = Some res"
    and new: "incrementOf (mergeStep (data res) (lastTsOf lts key) (nowWatermark e key)) = recs"
             "recs \<noteq> []"
    and failed: "\<not> (countReadOk e key \<and> updateOk e key)"
  shows "\<exists>st'. processSensor e lts startTime endTime (key, cfg) st = Inr st'
          \<and> store st' = store st
          \<and> successfulSensors st' = successfulSensors st
          \<and> totalNewRecords st' = totalNewRecords st
          \<and> latestValues st' = (latestValues st)(key \<mapsto> val (last recs))"
proof -
  obtain w where m: "mergeStep (data res) (lastTsOf lts key) (nowWatermark e key) = Increment recs w"
    using new by (cases "mergeStep (data res) (lastTsOf lts key) (nowWatermark e key)") auto
  obtain ds where f: "fetchSensor e key cfg startTime endTime 3 = (Some res, ds)"
    using fetched by (cases "fetchSensor e key cfg startTime endTime 3") auto
  have "appendRecords e key recs w (store st) = None"
    using failed by (simp add: appendRecords_None)
  then show ?thesis
    using m f by (simp add: processSensor_def pace_def)
qed

text \<open>
  The theorem at an iteration that fetches one new reading and whose update
  fails.
\<close>

theorem failed_write_keeps_store_witness:
  "fst (fetchSensor (exampleEnv (onlyBarometer [(110, 6)]) True False) ''barometricPressure''
          (snd (SENSORS ! 0)) 0 7200000 3)
     = Some \<lparr>resultKey = ''barometricPressure'',
             data = toReadings ''barometricPressure'' (snd (SENSORS ! 0)) [(110, 6 :: nat)],
             error = None\<rparr>
   \<and> incrementOf (mergeStep (toReadings ''barometricPressure'' (snd (SENSORS ! 0)) [(110, 6 :: nat)])
        (lastTsOf (sensorMeta exampleStore) ''barometricPressure'')
        (nowWatermark (exampleEnv (onlyBarometer [(110, 6)]) True False) ''barometricPressure''))
     = toReadings ''barometricPressure'' (snd (SENSORS ! 0)) [(110, 6 :: nat)]
   \<and> toReadings ''barometricPressure'' (snd (SENSORS ! 0)) [(110, 6 :: nat)] \<noteq> []
   \<and> \<not> (countReadOk (exampleEnv (onlyBarometer [(110, 6)]) True False) ''barometricPressure''
         \<and> updateOk (exampleEnv (onlyBarometer [(110, 6)]) True False) ''barometricPressure'')
   \<and> (\<exists>st'. processSensor (exampleEnv (onlyBarometer [(110, 6)]) True False)
               (sensorMeta exampleStore) 0 7200000 (''barometricPressure'', snd (SENSORS ! 0))
               (initialState exampleStore) = Inr st'
          \<and> store st' = store (initialState exampleStore)
          \<and> successfulSensors st' = successfulSensors (initialState exampleStore)
          \<and> totalNewRecords st' = totalNewRecords (initialState exampleStore)
          \<and> latestValues st' = (latestValues (initialState exampleStore))
               (''barometricPressure'' \<mapsto>
                  val (last (toReadings ''barometricPressure'' (snd (SENSORS ! 0)) [(110, 6 :: nat)]))))"
proof -
  let ?e = "exampleEnv (onlyBarometer [(110, 6)]) True False"
  let ?recs = "toReadings ''barometricPressure'' (snd (SENSORS ! 0)) [(110, 6 :: nat)]"
  let ?res = "\<lparr>resultKey = ''barometricPressure'', data = ?recs, error = None\<rparr>"
  have fetched: "fst (fetchSensor ?e ''barometricPressure'' (snd (SENSORS ! 0)) 0 7200000 3)
                   = Some ?res"
    by (simp add: fetchSensor_def fetchLoop.simps tryAttempt_def exampleEnv_def
          onlyBarometer_def SENSORS_def)
  have new: "incrementOf (mergeStep (data ?res) (lastTsOf (sensorMeta exampleStore)
                ''barometricPressure'') (nowWatermark ?e ''barometricPressure'')) = ?recs"
    by (simp add: mergeStep_def toReadings_def lastTsOf_def exampleStore_def)
  have ne: "?recs \<noteq> []"
    by (simp add: toReadings_def)
  have failed: "\<not> (countReadOk ?e ''barometricPressure'' \<and> updateOk ?e ''barometricPressure'')"
    by (simp add: exampleEnv_def)
  note kept = failed_write_keeps_store
                [OF fetched new ne failed, of "initialState exampleStore"]
  have new': "incrementOf (mergeStep ?recs (lastTsOf (sensorMeta exampleStore)
                ''barometricPressure'') (nowWatermark ?e ''barometricPressure'')) = ?recs"
    using new by simp
  show ?thesis
    by (rule conjI [OF fetched conjI [OF new' conjI [OF ne conjI [OF failed kept]]]])
qed

text \<open>
  Claim C5 as stated fails on its summary part. In a run that fetches one new
  reading (timestamp \<open>110\<close>, value \<open>6\<close>) for the barometric pressure sensor and
  whose updates fail, the watermark stays at \<open>100\<close> and no sensor is counted, but
  the run summary written at the end reports the new value \<open>6\<close> for the sensor.
\<close>

theorem failed_write_updates_summary_value:
  "updateOk (exampleEnv (onlyBarometer [(110, 6)]) True False) ''barometricPressure'' = False
   \<and> watermarkTs (snd (main (exampleEnv (onlyBarometer [(110, 6)]) True False) exampleStore))
        ''barometricPressure'' = 100
   \<and> map_option sensorCount
        (metadata (snd (main (exampleEnv (onlyBarometer [(110, 6)]) True False) exampleStore)))
      = Some 0
   \<and> map_option (\<lambda>m. summaryValues m ''barometricPressure'')
        (metadata (snd (main (exampleEnv (onlyBarometer [(110, 6)]) True False) exampleStore)))
      = Some (Some 6)"
  by code_simp

lemma those_eq_Some: "those xs = Some ys \<longleftrightarrow> xs = map Some ys"
proof (induction xs arbitrary: ys)
  case Nil
  then show ?case by auto
next
  case (Cons x xs)
  then show ?case
    by (cases x; cases ys) (auto split: option.splits)
qed

lemma storedLog_Some:
  "storedLog s key = Some log \<longleftrightarrow>
     length log = currentCountOf s key \<and> (\<forall>i<length log. logData s key i = Some (log ! i))"
  by (auto simp: storedLog_def those_eq_Some list_eq_iff_nth_eq)

lemma storedLog_after_update:
  assumes "storedLog s key = Some log"
  shows "storedLog (updateStore (buildUpdates key (currentCountOf s key) recs now w) s) key
           = Some (log @ recs)"
  using assms
  by (auto simp: storedLog_Some currentCountOf_def updateStore_buildUpdates_recordCount
        updateStore_buildUpdates_logData nth_append)

text \<open>
  The store an iteration leaves, case by case: the multi-location update of the
  increment when the fetch returned a result with new readings and both the read
  of the record count and the update succeeded, the store as it was otherwise.
\<close>

lemma processSensor_store_cases:
  "store (stateAfter (processSensor e lts a b (key, cfg) st)) =
     (case fst (fetchSensor e key cfg a b 3) of
        None \<Rightarrow> store st
      | Some res \<Rightarrow>
          (case mergeStep (data res) (lastTsOf lts key) (nowWatermark e key) of
             Increment recs w \<Rightarrow>
               if countReadOk e key \<and> updateOk e key
               then updateStore (buildUpdates key (currentCountOf (store st) key) recs
                                   (nowLog e key) w) (store st)
               else store st
           | _ \<Rightarrow> store st))"
  by (auto simp: processSensor_def stateAfter_def pace_def Let_def appendRecords_def
        appendUpdates_def split: prod.splits option.splits merged.splits)

text \<open>
  Claim C8, amended. Let the log of a sensor be complete up to its record count
  and sorted ascending by timestamp, with no stored timestamp above the sensor's
  watermark, and let the iteration work with the stored watermark. After the
  iteration the log is complete again. When the append succeeds (the fetch
  returned a result, the read of the record count and the multi-location update
  succeeded) the log is the old log followed by the increment and the record
  count has grown by the length of the increment; in every other case the log is
  the old log. In both cases the log is sorted ascending by timestamp and no
  stored timestamp is above the new watermark. It holds no two readings with the
  same timestamp provided the old log held none and the fetched readings newer
  than the watermark have pairwise different timestamps.
\<close>

theorem append_keeps_log_sorted:
  assumes read: "lastTsOf lts key = watermarkTs (store st) key"
    and log: "storedLog (store st) key = Some log"
    and srt: "sorted (map timestamp log)"
    and bounded: "\<forall>r\<in>set log. timestamp r \<le> watermarkTs (store st) key"
  shows "\<exists>log'. storedLog (store (stateAfter (processSensor e lts a b (key, cfg) st))) key = Some log'
       \<and> log' =
           (case fst (fetchSensor e key cfg a b 3) of
              None \<Rightarrow> log
            | Some res \<Rightarrow>
                if countReadOk e key \<and> updateOk e key
                then log @ incrementOf (mergeStep (data res) (watermarkTs (store st) key)
                                          (nowWatermark e key))
                else log)
       \<and> currentCountOf (store (stateAfter (processSensor e lts a b (key, cfg) st))) key
           = length log'
       \<and> sorted (map timestamp log')
       \<and> (\<forall>r\<in>set log'. timestamp r
              \<le> watermarkTs (store (stateAfter (processSensor e lts a b (key, cfg) st))) key)
       \<and> (distinct (map timestamp log)
            \<and> (\<forall>res. fst (fetchSensor e key cfg a b 3) = Some res
                   \<longrightarrow> distinct (map timestamp
                         (filter (\<lambda>r. watermarkTs (store st) key < timestamp r) (data res))))
          \<longrightarrow> distinct (map timestamp log'))"
proof -
  let ?st' = "stateAfter (processSensor e lts a b (key, cfg) st)"
  let ?lastTs = "watermarkTs (store st) key"
  let ?log' = "case fst (fetchSensor e key cfg a b 3) of
                 None \<Rightarrow> log
               | Some res \<Rightarrow>
                   if countReadOk e key \<and> updateOk e key
                   then log @ incrementOf (mergeStep (data res) ?lastTs (nowWatermark e key))
                   else log"
  have len: "currentCountOf (store st) key = length log"
    using log by (simp add: storedLog_Some)
  note cases = processSensor_store_cases [of e lts a b key cfg st]
  have same: ?thesis if kept: "store ?st' = store st" and old: "?log' = log"
  proof -
    have "storedLog (store ?st') key = Some log"
      using kept log by simp
    moreover have "currentCountOf (store ?st') key = length log"
      using kept len by simp
    moreover have "\<forall>r\<in>set log. timestamp r \<le> watermarkTs (store ?st') key"
      using kept bounded by simp
    ultimately show ?thesis
      unfolding old using srt by blast
  qed
  show ?thesis
  proof (cases "fst (fetchSensor e key cfg a b 3)")
    case None
    show ?thesis
      by (rule same) (use None cases in simp_all)
  next
    case (Some res)
    show ?thesis
    proof (cases "mergeStep (data res) (lastTsOf lts key) (nowWatermark e key)")
      case NoRecords
      then have "incrementOf (mergeStep (data res) ?lastTs (nowWatermark e key)) = []"
        using read by simp
      then show ?thesis
        by (intro same) (use Some NoRecords cases in simp_all)
    next
      case (NothingNew v)
      then have "incrementOf (mergeStep (data res) ?lastTs (nowWatermark e key)) = []"
        using read by simp
      then show ?thesis
        by (intro same) (use Some NothingNew cases in simp_all)
    next
      case (Increment recs w)
      show ?thesis
      proof (cases "countReadOk e key \<and> updateOk e key")
        case False
        show ?thesis
          by (rule same) (use Some Increment False cases in auto)
      next
        case True
        have upd: "store ?st' = updateStore (buildUpdates key (currentCountOf (store st) key) recs
                                  (nowLog e key) w) (store st)"
          using cases Some Increment True by simp
        have m': "mergeStep (data res) ?lastTs (nowWatermark e key) = Increment recs w"
          using Increment read by simp
        have recs: "recs = sort_key timestamp (filter (\<lambda>r. ?lastTs < timestamp r) (data res))"
          and ne: "recs \<noteq> []" and w: "lastTimestamp w = timestamp (last recs)"
          using m' by (auto simp: mergeStep_Increment)
        have new: "?log' = log @ recs"
          using Some True m' by simp
        have log': "storedLog (store ?st') key = Some (log @ recs)"
          unfolding upd using log by (rule storedLog_after_update)
        have cnt: "currentCountOf (store ?st') key = length (log @ recs)"
          unfolding upd using len
          by (simp add: currentCountOf_def updateStore_buildUpdates_recordCount)
        have sorted_recs: "sorted (map timestamp recs)"
          by (simp add: recs)
        have newer: "\<forall>r\<in>set recs. ?lastTs < timestamp r"
          by (simp add: recs)
        have top: "\<forall>r\<in>set recs. timestamp r \<le> timestamp (last recs)"
          using sorted_last_Max [OF ne sorted_recs] by simp
        have wm: "watermarkTs (store ?st') key = timestamp (last recs)"
          unfolding upd
          by (simp add: watermarkTs_def lastTsOf_def updateStore_buildUpdates_sensorMeta w)
        have "last recs \<in> set recs"
          using ne by simp
        then have up: "?lastTs < timestamp (last recs)"
          using newer by blast
        have s: "sorted (map timestamp (log @ recs))"
          using srt sorted_recs bounded newer by (fastforce simp: sorted_append)
        have b: "\<forall>r\<in>set (log @ recs). timestamp r \<le> watermarkTs (store ?st') key"
          unfolding wm using bounded top up by fastforce
        have d: "distinct (map timestamp (log @ recs))"
          if "distinct (map timestamp log)"
            and "distinct (map timestamp (filter (\<lambda>r. ?lastTs < timestamp r) (data res)))"
        proof -
          have "mset (map timestamp recs)
                  = mset (map timestamp (filter (\<lambda>r. ?lastTs < timestamp r) (data res)))"
            by (simp add: recs)
          then have "distinct (map timestamp recs)
                   \<longleftrightarrow> distinct (map timestamp (filter (\<lambda>r. ?lastTs < timestamp r) (data res)))"
            by (rule mset_eq_imp_distinct_iff)
          then have "distinct (map timestamp recs)"
            using that(2) by blast
          moreover have "timestamp ` set log \<inter> timestamp ` set recs = {}"
            using bounded newer by fastforce
          ultimately show ?thesis
            using that(1) by simp
        qed
        have d': "distinct (map timestamp log)
            \<and> (\<forall>res. fst (fetchSensor e key cfg a b 3) = Some res
                   \<longrightarrow> distinct (map timestamp
                         (filter (\<lambda>r. ?lastTs < timestamp r) (data res))))
          \<longrightarrow> distinct (map timestamp (log @ recs))"
          using d Some by blast
        show ?thesis
          unfolding new using log' cnt s b d' by blast
      qed
    qed
  qed
qed

text \<open>
  The theorem at an iteration on the example store that fetches the readings
  \<open>(120, 2)\<close> and \<open>(110, 1)\<close> and whose append succeeds: the log becomes the old
  reading followed by the two new ones in ascending order, and the record count
  becomes \<open>3\<close>.
\<close>

theorem append_keeps_log_sorted_witness:
  "lastTsOf (sensorMeta exampleStore) ''barometricPressure''
     = watermarkTs (store (initialState exampleStore)) ''barometricPressure''
   \<and> storedLog (store (initialState exampleStore)) ''barometricPressure''
     = Some (toReadings ''barometricPressure'' (snd (SENSORS ! 0)) [(100, 5)])
   \<and> sorted (map timestamp (toReadings ''barometricPressure'' (snd (SENSORS ! 0)) [(100, 5 :: nat)]))
   \<and> list_all (\<lambda>r. timestamp r \<le> watermarkTs (store (initialState exampleStore)) ''barometricPressure'')
        (toReadings ''barometricPressure'' (snd (SENSORS ! 0)) [(100, 5 :: nat)])
   \<and> countReadOk (exampleEnv (onlyBarometer [(120, 2), (110, 1)]) True True) ''barometricPressure''
   \<and> updateOk (exampleEnv (onlyBarometer [(120, 2), (110, 1)]) True True) ''barometricPressure''
   \<and> storedLog (store (stateAfter (processSensor
          (exampleEnv (onlyBarometer [(120, 2), (110, 1)]) True True)
          (sensorMeta exampleStore) 0 7200000
          (''barometricPressure'', snd (SENSORS ! 0)) (initialState exampleStore))))
        ''barometricPressure''
     = Some (toReadings ''barometricPressure'' (snd (SENSORS ! 0)) [(100, 5), (110, 1), (120, 2)])
   \<and> currentCountOf (store (stateAfter (processSensor
          (exampleEnv (onlyBarometer [(120, 2), (110, 1)]) True True)
          (sensorMeta exampleStore) 0 7200000
          (''barometricPressure'', snd (SENSORS ! 0)) (initialState exampleStore))))
        ''barometricPressure'' = 3
   \<and> sorted (map timestamp
        (toReadings ''barometricPressure'' (snd (SENSORS ! 0)) [(100, 5 :: nat), (110, 1), (120, 2)]))"
proof -
  let ?e = "exampleEnv (onlyBarometer [(120, 2), (110, 1)]) True True"
  let ?log = "toReadings ''barometricPressure'' (snd (SENSORS ! 0)) [(100, 5 :: nat)]"
  let ?new = "toReadings ''barometricPressure'' (snd (SENSORS ! 0)) [(100, 5 :: nat), (110, 1), (120, 2)]"
  let ?st' = "stateAfter (processSensor ?e (sensorMeta exampleStore) 0 7200000
                (''barometricPressure'', snd (SENSORS ! 0)) (initialState exampleStore))"
  have read: "lastTsOf (sensorMeta exampleStore) ''barometricPressure''
                = watermarkTs (store (initialState exampleStore)) ''barometricPressure''"
    by (simp add: watermarkTs_def initialState_def)
  have log: "storedLog (store (initialState exampleStore)) ''barometricPressure'' = Some ?log"
    by (simp add: storedLog_def initialState_def exampleStore_def currentCountOf_def
          toReadings_def SENSORS_def)
  have srt: "sorted (map timestamp ?log)"
    by (simp add: toReadings_def)
  have bounded: "\<forall>r\<in>set ?log. timestamp r
                   \<le> watermarkTs (store (initialState exampleStore)) ''barometricPressure''"
    by (simp add: toReadings_def watermarkTs_def lastTsOf_def initialState_def exampleStore_def)
  have ok: "countReadOk ?e ''barometricPressure''" "updateOk ?e ''barometricPressure''"
    by (simp_all add: exampleEnv_def)
  have fetched: "fst (fetchSensor ?e ''barometricPressure'' (snd (SENSORS ! 0)) 0 7200000 3)
      = Some \<lparr>resultKey = ''barometricPressure'',
              data = toReadings ''barometricPressure'' (snd (SENSORS ! 0)) [(120, 2), (110, 1)],
              error = None\<rparr>"
    by (simp add: fetchSensor_def fetchLoop.simps tryAttempt_def exampleEnv_def
          onlyBarometer_def SENSORS_def)
  have wts: "watermarkTs (store (initialState exampleStore)) ''barometricPressure'' = 100"
    by (simp add: watermarkTs_def lastTsOf_def initialState_def exampleStore_def)
  have grown: "(case fst (fetchSensor ?e ''barometricPressure'' (snd (SENSORS ! 0)) 0 7200000 3) of
           None \<Rightarrow> ?log
         | Some res \<Rightarrow>
             if countReadOk ?e ''barometricPressure'' \<and> updateOk ?e ''barometricPressure''
             then ?log @ incrementOf (mergeStep (data res)
                    (watermarkTs (store (initialState exampleStore)) ''barometricPressure'')
                    (nowWatermark ?e ''barometricPressure''))
             else ?log) = ?new"
    unfolding fetched wts using ok by (simp add: mergeStep_def toReadings_def)
  from append_keeps_log_sorted [OF read log srt bounded, of ?e 0 7200000 "snd (SENSORS ! 0)"]
  have after: "storedLog (store ?st') ''barometricPressure'' = Some ?new
      \<and> currentCountOf (store ?st') ''barometricPressure'' = length ?new
      \<and> sorted (map timestamp ?new)"
    unfolding grown by blast
  have three: "length ?new = 3"
    by (simp add: toReadings_def)
  have bounded': "list_all (\<lambda>r. timestamp r
                   \<le> watermarkTs (store (initialState exampleStore)) ''barometricPressure'') ?log"
    using bounded by (simp add: list_all_iff)
  from after three have after': "storedLog (store ?st') ''barometricPressure'' = Some ?new
      \<and> currentCountOf (store ?st') ''barometricPressure'' = 3
      \<and> sorted (map timestamp ?new)"
    by simp
  show ?thesis
    by (rule conjI [OF read conjI [OF log conjI [OF srt conjI [OF bounded'
          conjI [OF ok(1) conjI [OF ok(2) after']]]]]])
qed

text \<open>
  Claim C8 as stated fails. The log of the barometric pressure sensor is sorted
  and its greatest timestamp \<open>100\<close> is the watermark. A run that fetches two
  readings of timestamp \<open>110\<close> appends both, so the log holds a timestamp twice.
  A run whose bulk read of \<open>sensorMeta\<close> throws and that fetches a reading of
  timestamp \<open>50\<close> appends it after the reading of timestamp \<open>100\<close>, so the log
  is no longer sorted.
\<close>

theorem appended_log_repeats_timestamp:
  "storedLog exampleStore ''barometricPressure''
     = Some (toReadings ''barometricPressure'' (snd (SENSORS ! 0)) [(100, 5)])
   \<and> watermarkTs exampleStore ''barometricPressure'' = 100
   \<and> storedLog (snd (main (exampleEnv (onlyBarometer [(110, 1), (110, 2)]) True True) exampleStore))
        ''barometricPressure''
     = Some (toReadings ''barometricPressure'' (snd (SENSORS ! 0)) [(100, 5), (110, 1), (110, 2)])
   \<and> \<not> distinct (map timestamp
         (toReadings ''barometricPressure'' (snd (SENSORS ! 0)) [(100, 5 :: nat), (110, 1), (110, 2)]))
   \<and> storedLog (snd (main (exampleEnv (onlyBarometer [(50, 3)]) False True) exampleStore))
        ''barometricPressure''
     = Some (toReadings ''barometricPressure'' (snd (SENSORS ! 0)) [(100, 5), (50, 3)])
   \<and> \<not> sorted (map timestamp
         (toReadings ''barometricPressure'' (snd (SENSORS ! 0)) [(100, 5 :: nat), (50, 3)]))"
  by code_simp

text \<open>
  An iteration whose fetch brings nothing new leaves the store as it is. With
  no readings fetched, it reports the \<open>latestValue\<close> of the watermark read at the
  start, if there is one; otherwise it reports the value of the last reading in
  the order fetched.
\<close>

lemma empty_increment_step:
  assumes fetched: "fst (fetchSensor e key cfg a b 3) = Some res"
    and none: "incrementOf (mergeStep (data res) (lastTsOf lts key) (nowWatermark e key)) = []"
  shows "\<exists>st'. processSensor e lts a b (key, cfg) st = Inr st'
          \<and> store st' = store st
          \<and> latestValues st' key
              = (if data res = []
                 then (case priorLatestValue lts key of
                         None \<Rightarrow> latestValues st key | Some v \<Rightarrow> Some v)
                 else Some (val (last (data res))))"
proof -
  obtain ds where f: "fetchSensor e key cfg a b 3 = (Some res, ds)"
    using fetched by (cases "fetchSensor e key cfg a b 3") auto
  show ?thesis
  proof (cases "mergeStep (data res) (lastTsOf lts key) (nowWatermark e key)")
    case NoRecords
    then have "data res = []"
      by (auto simp: mergeStep_def Let_def split: if_splits)
    then show ?thesis
      using f NoRecords by (simp add: processSensor_def pace_def split: option.splits)
  next
    case (NothingNew v)
    then have "data res \<noteq> []" "v = val (last (data res))"
      by (auto simp: mergeStep_def Let_def split: if_splits)
    then show ?thesis
      using f NothingNew by (simp add: processSensor_def pace_def)
  next
    case (Increment recs w)
    then have "recs \<noteq> []"
      by (auto simp: mergeStep_Increment)
    then show ?thesis
      using none Increment by simp
  qed
qed

lemma last_sorted_fetch:
  "sorted (map timestamp xs) \<Longrightarrow> last (sort_key timestamp xs) = last xs"
  by (simp add: sort_key_id_if_sorted)

text \<open>
  Claim C9 at an input it fails on. The watermark of the barometric pressure
  sensor is \<open>100\<close> and the upstream returns the readings \<open>(90, 1)\<close> and \<open>(80, 2)\<close>
  in this order. Nothing is new and the watermark stays at \<open>100\<close>; the run
  summary reports the value \<open>2\<close>, the last reading as fetched, whereas the last
  reading of the fetch sorted ascending by timestamp has the value \<open>1\<close>.
\<close>

theorem unsorted_fetch_reports_older_value:
  "map_option (\<lambda>m. summaryValues m ''barometricPressure'')
        (metadata (snd (main (exampleEnv (onlyBarometer [(90, 1), (80, 2)]) True True) exampleStore)))
      = Some (Some 2)
   \<and> val (last (sort_key timestamp
        (toReadings ''barometricPressure'' (snd (SENSORS ! 0)) [(90, 1 :: nat), (80, 2)]))) = 1
   \<and> watermarkTs (snd (main (exampleEnv (onlyBarometer [(90, 1), (80, 2)]) True True) exampleStore))
        ''barometricPressure'' = 100"
  by code_simp

end
